theory Spec2Isabelle
  imports Main "HOL-Library.Sublist" "HOL-Library.AList"
begin

section \<open>Strings of the script\<close>

text \<open>
  The script works on JavaScript strings. A \<^typ>\<open>char\<close> stands for one code unit below
  256 (ASCII and Latin-1); code units above that are outside the model. Three built-ins
  are used by the mapper: \<^verbatim>\<open>String.prototype.trim\<close>, \<^verbatim>\<open>toLowerCase\<close> and
  \<^verbatim>\<open>split\<close>, with \<^verbatim>\<open>Array.prototype.join\<close> as the inverse direction.
\<close>

definition is_space :: "char \<Rightarrow> bool" where
  \<comment> \<open>WhiteSpace and LineTerminator below 256: TAB, LF, VT, FF, CR, SP, NBSP.\<close>
  "is_space c \<longleftrightarrow>
     c \<in> set [CHR 0x09, CHR 0x0A, CHR 0x0B, CHR 0x0C, CHR 0x0D, CHR 0x20, CHR 0xA0]"

definition trim :: "string \<Rightarrow> string" where
  "trim s = rev (dropWhile is_space (rev (dropWhile is_space s)))"

definition lower_char :: "char \<Rightarrow> char" where
  \<comment> \<open>A..Z and the Latin-1 capitals (0xC0..0xDE without the multiplication sign 0xD7).\<close>
  "lower_char c =
     (let n = (of_char c :: nat)
      in if (65 \<le> n \<and> n \<le> 90) \<or> (192 \<le> n \<and> n \<le> 222 \<and> n \<noteq> 215)
         then char_of (n + 32) else c)"

definition toLowerCase :: "string \<Rightarrow> string" where
  "toLowerCase s = map lower_char s"

fun join :: "string \<Rightarrow> string list \<Rightarrow> string" where
  "join sep [] = []"
| "join sep [x] = x"
| "join sep (x # y # ys) = x @ sep @ join sep (y # ys)"

fun split_char :: "char \<Rightarrow> string \<Rightarrow> string list" where
  \<comment> \<open>\<^verbatim>\<open>s.split(d)\<close> with a one-character string \<^verbatim>\<open>d\<close>: empty pieces are kept.\<close>
  "split_char d [] = [[]]"
| "split_char d (c # cs) =
     (if c = d then [] # split_char d cs
      else (case split_char d cs of
              [] \<Rightarrow> [[c]]
            | p # ps \<Rightarrow> (c # p) # ps))"

definition is_sep :: "char \<Rightarrow> bool" where
  \<comment> \<open>The character class of \<^verbatim>\<open>/[,\n;]+/\<close>.\<close>
  "is_sep c \<longleftrightarrow> c = CHR '','' \<or> c = CHR 0x0A \<or> c = CHR '';''"

function split_seps :: "string \<Rightarrow> string list" where
  \<comment> \<open>\<^verbatim>\<open>s.split(/[,\n;]+/)\<close>: a maximal run of separators is one cut.\<close>
  "split_seps s =
     (case dropWhile (\<lambda>c. \<not> is_sep c) s of
        [] \<Rightarrow> [s]
      | r # rs \<Rightarrow> takeWhile (\<lambda>c. \<not> is_sep c) s # split_seps (dropWhile is_sep rs))"
  by pat_completeness auto
termination
proof (relation "measure length")
  show "wf (measure length)" by simp
next
  fix s :: string and r rs
  assume "dropWhile (\<lambda>c. \<not> is_sep c) s = r # rs"
  then have "length (r # rs) \<le> length s"
    by (metis length_dropWhile_le)
  moreover have "length (dropWhile is_sep rs) \<le> length rs"
    by (rule length_dropWhile_le)
  ultimately show "(dropWhile is_sep rs, s) \<in> measure length" by simp
qed

declare split_seps.simps [simp del]

section \<open>List normalisation and merge\<close>

text \<open>
  \<^verbatim>\<open>normalizeList\<close> (part_002, 5278) and \<^verbatim>\<open>mergeList\<close> (part_002, 5285) on string
  arguments. \<^verbatim>\<open>filter(Boolean)\<close> drops the empty strings. The \<^verbatim>\<open>Set\<close> of lower-cased
  items is a HOL set; \<^verbatim>\<open>forEach\<close> is a left fold over the incoming array that carries
  the pair of \<^verbatim>\<open>base\<close> and \<^verbatim>\<open>lower\<close>.
\<close>

definition normalizeList :: "string \<Rightarrow> string list" where
  "normalizeList val = filter (\<lambda>v. v \<noteq> []) (map trim (split_seps val))"

definition merge_step :: "string list \<times> string set \<Rightarrow> string \<Rightarrow> string list \<times> string set" where
  "merge_step st val =
     (case st of (base, lower) \<Rightarrow>
        if val = [] then st
        else let trimmed = trim val
             in if trimmed \<noteq> [] \<and> toLowerCase trimmed \<notin> lower
                then (base @ [trimmed], insert (toLowerCase trimmed) lower)
                else st)"

definition mergeList :: "string \<Rightarrow> string list \<Rightarrow> string" where
  "mergeList existing incoming =
     (let base = normalizeList existing;
          lower = set (map toLowerCase base)
      in join '', '' (fst (foldl merge_step (base, lower) incoming)))"

text \<open>
  The claims about \<^verbatim>\<open>mergeList\<close> speak of the items that are appended. The two
  definitions below state them in the words of the specification and of its amendment:
  \<open>absent_from_current\<close> keeps every incoming item whose lower-cased form is not in the
  current list; \<open>first_new\<close> keeps an item only at its first occurrence, that is when its
  lower-cased form is neither in the current list nor among the earlier incoming items.
\<close>

definition absent_from_current :: "string list \<Rightarrow> string list \<Rightarrow> string list" where
  "absent_from_current base ts =
     filter (\<lambda>t. toLowerCase t \<notin> toLowerCase ` set base) ts"

definition first_new :: "string list \<Rightarrow> string list \<Rightarrow> string list" where
  "first_new base ts =
     map (\<lambda>i. ts ! i)
       (filter (\<lambda>i. toLowerCase (ts ! i) \<notin> toLowerCase ` (set base \<union> set (take i ts)))
          [0..<length ts])"

definition clean_item :: "string \<Rightarrow> bool" where
  \<comment> \<open>What a stored list item looks like: not empty, trimmed, free of separators.\<close>
  "clean_item i \<longleftrightarrow> i \<noteq> [] \<and> trim i = i \<and> (\<forall>c\<in>set i. \<not> is_sep c)"

section \<open>Values, objects and the built-in prototypes\<close>

text \<open>
  The values the mapper meets are \<^verbatim>\<open>undefined\<close>, the values that \<^verbatim>\<open>JSON.parse\<close> returns
  (\<^verbatim>\<open>null\<close>, booleans, numbers, strings, arrays and objects: the \<^verbatim>\<open>details\<close> tree of a
  project or feature and the update payloads), and the built-in functions and prototype
  objects that a property read reaches through the prototype chain.

  A number is held as the text that \<^verbatim>\<open>String\<close> gives for it, which is all the script
  ever asks of a number apart from its truthiness. An object is the list of its own
  enumerable properties in the order in which \<^verbatim>\<open>Object.entries\<close> lists them: the keys
  that are array indices first, in ascending order, then the other keys in the order of
  their creation. \<open>JFun n\<close> is the built-in function whose \<^verbatim>\<open>name\<close> is \<open>n\<close>, \<open>JProto c\<close> is
  \<^verbatim>\<open>c.prototype\<close>. The members of the prototypes are those of ECMAScript 2024 with its
  Annex B.

  What the model leaves out is marked by the outcome \<open>Unmodelled\<close>: a read or a write of a
  property of a built-in function or prototype object, a write that changes the prototype
  of an object, a write into an array, and a selector that is not \<^verbatim>\<open>#\<close> followed by a
  plain identifier. The script is a classic (non-strict) script: an assignment to a
  property of a primitive value is silently ignored, an access to a property of
  \<^verbatim>\<open>undefined\<close> or \<^verbatim>\<open>null\<close> throws.
\<close>

datatype jv = JUndef | JNull | JBool bool | JNum string | JStr string
  | JArr "jv list" | JObj "(string \<times> jv) list" | JFun string | JProto string

datatype error = TypeError | SyntaxError | Unmodelled

fun truthy :: "jv \<Rightarrow> bool" where
  "truthy JUndef = False"
| "truthy JNull = False"
| "truthy (JBool b) = b"
| "truthy (JNum n) = (n \<noteq> ''0'' \<and> n \<noteq> ''NaN'')"
| "truthy (JStr s) = (s \<noteq> [])"
| "truthy (JArr xs) = True"
| "truthy (JObj kvs) = True"
| "truthy (JFun n) = True"
| "truthy (JProto c) = True"

definition or_else :: "jv \<Rightarrow> jv \<Rightarrow> jv" where
  \<comment> \<open>\<^verbatim>\<open>a || b\<close>\<close>
  "or_else a b = (if truthy a then a else b)"

fun is_native :: "jv \<Rightarrow> bool" where
  "is_native (JFun n) = True"
| "is_native (JProto c) = True"
| "is_native v = False"

fun dec :: "nat \<Rightarrow> string" where
  \<comment> \<open>the decimal digits of a natural number\<close>
  "dec n = (if n < 10 then [char_of (48 + n)] else dec (n div 10) @ [char_of (48 + n mod 10)])"

declare dec.simps [simp del]

definition is_digit :: "char \<Rightarrow> bool" where
  "is_digit c \<longleftrightarrow> 48 \<le> (of_char c :: nat) \<and> (of_char c :: nat) \<le> 57"

definition index_val :: "string \<Rightarrow> nat" where
  "index_val k = foldl (\<lambda>a c. 10 * a + ((of_char c :: nat) - 48)) 0 k"

definition is_index :: "string \<Rightarrow> bool" where
  \<comment> \<open>an array index: the canonical decimal text of a number below \<open>2\<^sup>3\<^sup>2 - 1\<close>\<close>
  "is_index k \<longleftrightarrow>
     k \<noteq> [] \<and> list_all is_digit k \<and> (k = ''0'' \<or> hd k \<noteq> CHR ''0'') \<and> length k \<le> 10
     \<and> index_val k < 4294967295"

definition comes_before :: "string \<Rightarrow> string \<times> 'a \<Rightarrow> bool" where
  \<comment> \<open>the entry is listed before a new key \<open>k\<close> that is an array index\<close>
  "comes_before k entry \<longleftrightarrow> is_index (fst entry) \<and> index_val (fst entry) < index_val k"

definition set_own :: "string \<Rightarrow> 'a \<Rightarrow> (string \<times> 'a) list \<Rightarrow> (string \<times> 'a) list" where
  \<comment> \<open>the own properties after \<open>k\<close> has been given the value \<open>v\<close>: a present key keeps its
      place, a new one goes to the place where \<^verbatim>\<open>Object.entries\<close> lists it\<close>
  "set_own k v kvs =
     (if k \<in> set (map fst kvs) then AList.update k v kvs
      else if is_index k
      then takeWhile (comes_before k) kvs @ [(k, v)] @ dropWhile (comes_before k) kvs
      else kvs @ [(k, v)])"

fun own_props :: "jv \<Rightarrow> (string \<times> jv) list" where
  \<comment> \<open>the own enumerable properties with a string key: what \<^verbatim>\<open>{...v}\<close> copies and what
      \<^verbatim>\<open>Object.entries(v)\<close> and \<^verbatim>\<open>Object.keys(v)\<close> list\<close>
  "own_props (JObj kvs) = kvs"
| "own_props (JStr s) = map (\<lambda>i. (dec i, JStr [s ! i])) [0..<length s]"
| "own_props (JArr xs) = map (\<lambda>i. (dec i, xs ! i)) [0..<length xs]"
| "own_props v = []"

fun own_length :: "jv \<Rightarrow> nat option" where
  \<comment> \<open>\<^verbatim>\<open>length\<close>, an own property of strings and arrays that is not enumerable\<close>
  "own_length (JStr s) = Some (length s)"
| "own_length (JArr xs) = Some (length xs)"
| "own_length v = None"

definition object_methods :: "string list" where
  \<comment> \<open>\<^verbatim>\<open>Object.prototype\<close>, apart from \<^verbatim>\<open>constructor\<close> and \<^verbatim>\<open>__proto__\<close>\<close>
  "object_methods =
     [''__defineGetter__'', ''__defineSetter__'', ''__lookupGetter__'', ''__lookupSetter__'',
      ''hasOwnProperty'', ''isPrototypeOf'', ''propertyIsEnumerable'', ''toLocaleString'',
      ''toString'', ''valueOf'']"

definition string_methods :: "string list" where
  "string_methods =
     [''anchor'', ''at'', ''big'', ''blink'', ''bold'', ''charAt'', ''charCodeAt'',
      ''codePointAt'', ''concat'', ''endsWith'', ''fixed'', ''fontcolor'', ''fontsize'',
      ''includes'', ''indexOf'', ''isWellFormed'', ''italics'', ''lastIndexOf'', ''link'',
      ''localeCompare'', ''match'', ''matchAll'', ''normalize'', ''padEnd'', ''padStart'',
      ''repeat'', ''replace'', ''replaceAll'', ''search'', ''slice'', ''small'', ''split'',
      ''startsWith'', ''strike'', ''sub'', ''substr'', ''substring'', ''sup'',
      ''toLocaleLowerCase'', ''toLocaleUpperCase'', ''toLowerCase'', ''toString'',
      ''toUpperCase'', ''toWellFormed'', ''trim'', ''trimEnd'', ''trimLeft'', ''trimRight'',
      ''trimStart'', ''valueOf'']"

definition array_methods :: "string list" where
  "array_methods =
     [''at'', ''concat'', ''copyWithin'', ''entries'', ''every'', ''fill'', ''filter'', ''find'',
      ''findIndex'', ''findLast'', ''findLastIndex'', ''flat'', ''flatMap'', ''forEach'',
      ''includes'', ''indexOf'', ''join'', ''keys'', ''lastIndexOf'', ''map'', ''pop'', ''push'',
      ''reduce'', ''reduceRight'', ''reverse'', ''shift'', ''slice'', ''some'', ''sort'',
      ''splice'', ''toLocaleString'', ''toReversed'', ''toSorted'', ''toSpliced'', ''toString'',
      ''unshift'', ''values'', ''with'']"

definition number_methods :: "string list" where
  "number_methods =
     [''toExponential'', ''toFixed'', ''toLocaleString'', ''toPrecision'', ''toString'',
      ''valueOf'']"

definition boolean_methods :: "string list" where
  "boolean_methods = [''toString'', ''valueOf'']"

fun class_name :: "jv \<Rightarrow> string" where
  "class_name (JBool b) = ''Boolean''"
| "class_name (JNum n) = ''Number''"
| "class_name (JStr s) = ''String''"
| "class_name (JArr xs) = ''Array''"
| "class_name v = ''Object''"

fun class_methods :: "jv \<Rightarrow> string list" where
  "class_methods (JBool b) = boolean_methods"
| "class_methods (JNum n) = number_methods"
| "class_methods (JStr s) = string_methods"
| "class_methods (JArr xs) = array_methods"
| "class_methods v = []"

definition function_name :: "string \<Rightarrow> string" where
  \<comment> \<open>the \<^verbatim>\<open>name\<close> of the method found under a key: two keys of Annex B are aliases\<close>
  "function_name k =
     (if k = ''trimLeft'' then ''trimStart'' else if k = ''trimRight'' then ''trimEnd'' else k)"

definition inherited :: "jv \<Rightarrow> string \<Rightarrow> jv" where
  \<comment> \<open>what the prototype chain of a value that is neither \<^verbatim>\<open>undefined\<close>, \<^verbatim>\<open>null\<close> nor a
      built-in gives for a key: the prototype of its class, then \<^verbatim>\<open>Object.prototype\<close>\<close>
  "inherited v k =
     (if k = ''__proto__'' then JProto (class_name v)
      else if k = ''constructor'' then JFun (class_name v)
      else if k \<in> set (class_methods v) \<or> k \<in> set object_methods then JFun (function_name k)
      else JUndef)"

definition builtin_key :: "jv \<Rightarrow> string \<Rightarrow> bool" where
  \<comment> \<open>the key names a built-in member of the value: \<^verbatim>\<open>length\<close> of a string or an array,
      or a member of its prototype chain\<close>
  "builtin_key v k \<longleftrightarrow>
     k = ''__proto__'' \<or> k = ''constructor'' \<or> k \<in> set (class_methods v) \<or> k \<in> set object_methods
     \<or> (k = ''length'' \<and> own_length v \<noteq> None)"

definition get_prop :: "jv \<Rightarrow> string \<Rightarrow> jv" where
  \<comment> \<open>\<^verbatim>\<open>v[k]\<close> for a value that is neither \<^verbatim>\<open>undefined\<close>, \<^verbatim>\<open>null\<close> nor a built-in (for those
      it is \<open>JUndef\<close> here, as \<^verbatim>\<open>v?.[k]\<close> is for the first two; the script reads a property
      behind a test of the value, and the walks along a path stop at a built-in)\<close>
  "get_prop v k =
     (case v of
        JUndef \<Rightarrow> JUndef
      | JNull \<Rightarrow> JUndef
      | JFun n \<Rightarrow> JUndef
      | JProto c \<Rightarrow> JUndef
      | _ \<Rightarrow>
          (case map_of (own_props v) k of
             Some x \<Rightarrow> x
           | None \<Rightarrow>
               (case own_length v of
                  Some n \<Rightarrow> if k = ''length'' then JNum (dec n) else inherited v k
                | None \<Rightarrow> inherited v k)))"

fun assign_prop :: "jv \<Rightarrow> string \<Rightarrow> jv \<Rightarrow> error + jv" where
  \<comment> \<open>\<^verbatim>\<open>cursor[key] = value\<close>; the result is the cursor after the assignment. On an object
      without an own \<^verbatim>\<open>__proto__\<close> that key is the setter of \<^verbatim>\<open>Object.prototype\<close>, which
      ignores a primitive value and takes an object or \<^verbatim>\<open>null\<close> as the new prototype.\<close>
  "assign_prop (JObj kvs) k v =
     (if k = ''__proto__'' \<and> k \<notin> set (map fst kvs)
      then (case v of
              JNull \<Rightarrow> Inl Unmodelled
            | JArr xs \<Rightarrow> Inl Unmodelled
            | JObj ps \<Rightarrow> Inl Unmodelled
            | JFun n \<Rightarrow> Inl Unmodelled
            | JProto c \<Rightarrow> Inl Unmodelled
            | _ \<Rightarrow> Inr (JObj kvs))
      else Inr (JObj (set_own k v kvs)))"
| "assign_prop (JBool b) k v = Inr (JBool b)"
| "assign_prop (JNum n) k v = Inr (JNum n)"
| "assign_prop (JStr s) k v = Inr (JStr s)"
| "assign_prop JUndef k v = Inl TypeError"
| "assign_prop JNull k v = Inl TypeError"
| "assign_prop (JArr xs) k v = Inl Unmodelled"
| "assign_prop (JFun n) k v = Inl Unmodelled"
| "assign_prop (JProto c) k v = Inl Unmodelled"

fun walk :: "jv \<Rightarrow> string list \<Rightarrow> error + jv" where
  \<comment> \<open>the \<^verbatim>\<open>reduce\<close> of \<^verbatim>\<open>getByPath\<close>:
      \<^verbatim>\<open>(acc, key) => (acc && acc[key] !== undefined ? acc[key] : undefined)\<close>\<close>
  "walk acc [] = Inr acc"
| "walk acc (key # keys) =
     (if \<not> truthy acc then walk JUndef keys
      else if is_native acc then Inl Unmodelled
      else walk (get_prop acc key) keys)"

definition getByPath :: "jv \<Rightarrow> string \<Rightarrow> error + jv" where
  "getByPath obj path =
     (if \<not> truthy obj \<or> path = [] then Inr JUndef
      else walk obj (split_char CHR ''.'' path))"



text \<open>
  \<^verbatim>\<open>String(v)\<close> and \<^verbatim>\<open>v.toString()\<close>. An object with an own property \<^verbatim>\<open>toString\<close> that
  is not a function cannot be converted; an array is the join of its elements, with
  \<^verbatim>\<open>undefined\<close> and \<^verbatim>\<open>null\<close> as the empty string; the text of a built-in function is the one
  V8 prints.
\<close>

definition proto_text :: "string \<Rightarrow> error + string" where
  "proto_text c =
     (if c = ''Object'' then Inr ''[object Object]''
      else if c = ''String'' \<or> c = ''Array'' then Inr []
      else if c = ''Number'' then Inr ''0''
      else if c = ''Boolean'' then Inr ''false''
      else Inl Unmodelled)"

fun to_text :: "jv \<Rightarrow> error + string"
  and elems_text :: "jv list \<Rightarrow> error + string list" where
  "to_text JUndef = Inr ''undefined''"
| "to_text JNull = Inr ''null''"
| "to_text (JBool b) = Inr (if b then ''true'' else ''false'')"
| "to_text (JNum n) = Inr n"
| "to_text (JStr s) = Inr s"
| "to_text (JArr xs) =
     (case elems_text xs of Inl e \<Rightarrow> Inl e | Inr ts \<Rightarrow> Inr (join '','' ts))"
| "to_text (JObj kvs) =
     (case map_of kvs ''toString'' of
        None \<Rightarrow> Inr ''[object Object]''
      | Some f \<Rightarrow> if is_native f then Inl Unmodelled else Inl TypeError)"
| "to_text (JFun n) = Inr (''function '' @ n @ ''() { [native code] }'')"
| "to_text (JProto c) = proto_text c"
| "elems_text [] = Inr []"
| "elems_text (x # xs) =
     (case (if x = JUndef \<or> x = JNull then Inr [] else to_text x) of
        Inl e \<Rightarrow> Inl e
      | Inr t \<Rightarrow> (case elems_text xs of Inl e \<Rightarrow> Inl e | Inr ts \<Rightarrow> Inr (t # ts)))"

text \<open>
  \<^verbatim>\<open>normalizeList\<close> and \<^verbatim>\<open>mergeList\<close> as the mapper calls them, on a value that may
  not be a string: \<^verbatim>\<open>(val || "").split\<close> is a function on a string and on
  \<^verbatim>\<open>String.prototype\<close>, which is a string object of the empty string, and on nothing else.
\<close>

definition split_receiver :: "jv \<Rightarrow> error + string" where
  \<comment> \<open>the string that \<^verbatim>\<open>(val || "").split\<close> splits\<close>
  "split_receiver val =
     (case or_else val (JStr []) of
        JStr s \<Rightarrow> Inr s
      | JProto c \<Rightarrow> if c = ''String'' then Inr [] else Inl TypeError
      | _ \<Rightarrow> Inl TypeError)"

definition normalizeList_jv :: "jv \<Rightarrow> error + string list" where
  "normalizeList_jv val =
     (case split_receiver val of Inl e \<Rightarrow> Inl e | Inr s \<Rightarrow> Inr (normalizeList s))"

definition mergeList_jv :: "jv \<Rightarrow> string list \<Rightarrow> error + string" where
  "mergeList_jv existing incoming =
     (case split_receiver existing of Inl e \<Rightarrow> Inl e | Inr s \<Rightarrow> Inr (mergeList s incoming))"

fun json_value :: "jv \<Rightarrow> bool" where
  \<comment> \<open>the values that \<^verbatim>\<open>JSON.parse\<close> returns; on them \<^verbatim>\<open>JSON.stringify\<close> followed by
      \<^verbatim>\<open>JSON.parse\<close> gives the value back\<close>
  "json_value JUndef = False"
| "json_value JNull = True"
| "json_value (JBool b) = True"
| "json_value (JNum n) = (n \<notin> {''NaN'', ''Infinity'', ''-Infinity''})"
| "json_value (JStr s) = True"
| "json_value (JArr xs) = list_all json_value xs"
| "json_value (JObj kvs) = list_all (\<lambda>entry. json_value (snd entry)) kvs"
| "json_value (JFun n) = False"
| "json_value (JProto c) = False"

section \<open>Stored details\<close>


section \<open>The semantic map\<close>

record meta =
  entity :: string
  path :: string
  label :: string
  isList :: bool






section \<open>Forward mapping\<close>

text \<open>
  A project or feature record as the cache holds it; \<open>None\<close> is an absent record. The
  submitted values are the object that \<^verbatim>\<open>collectRawFormValues\<close> builds: its own
  properties are strings (\<^verbatim>\<open>null\<close> is admitted too). The mapper reads it with
  \<^verbatim>\<open>formValues[fieldKey]\<close>, which gives \<^verbatim>\<open>undefined\<close> for a key that was not submitted,
  unless the key names a member of \<^verbatim>\<open>Object.prototype\<close>.
\<close>

record stored =
  rec_id :: string
  rec_name :: string
  details :: jv

datatype fval = FNull | FStr string

record suggestion =
  s_entity :: string
  s_path :: string
  s_label :: string
  oldValue :: jv
  newValue :: jv

record derived =
  projectUpdates :: jv
  featureUpdates :: jv
  suggestions :: "suggestion list"

fun of_fval :: "fval \<Rightarrow> jv" where
  "of_fval FNull = JNull"
| "of_fval (FStr s) = JStr s"

definition form_object :: "(string \<times> fval) list \<Rightarrow> jv" where
  "form_object formValues = JObj (map (\<lambda>(k, v). (k, of_fval v)) formValues)"

definition form_value :: "(string \<times> fval) list \<Rightarrow> string \<Rightarrow> jv" where
  \<comment> \<open>\<^verbatim>\<open>formValues[fieldKey]\<close>\<close>
  "form_value formValues fieldKey = get_prop (form_object formValues) fieldKey"

definition entity_details :: "stored option \<Rightarrow> jv" where
  \<comment> \<open>\<^verbatim>\<open>record?.details || {}\<close>\<close>
  "entity_details r = or_else (case r of None \<Rightarrow> JUndef | Some x \<Rightarrow> details x) (JObj [])"

definition current_string :: "jv \<Rightarrow> error + string" where
  \<comment> \<open>\<^verbatim>\<open>(currentVal || "").toString().trim()\<close>\<close>
  "current_string currentVal =
     (case to_text (or_else currentVal (JStr [])) of
        Inl e \<Rightarrow> Inl e
      | Inr s \<Rightarrow> Inr (trim s))"



definition trimmed_value :: "jv \<Rightarrow> jv" where
  \<comment> \<open>\<^verbatim>\<open>typeof value === "string" ? value.trim() : value\<close>\<close>
  "trimmed_value v = (case v of JStr s \<Rightarrow> JStr (trim s) | _ \<Rightarrow> v)"


fun forEach :: "('s \<Rightarrow> 'a \<Rightarrow> error + 's) \<Rightarrow> 'a list \<Rightarrow> 's \<Rightarrow> error + 's" where
  \<comment> \<open>A \<^verbatim>\<open>forEach\<close> whose callback may throw: the first exception ends the loop.\<close>
  "forEach f [] s = Inr s"
| "forEach f (x # xs) s = (case f s x of Inl e \<Rightarrow> Inl e | Inr s' \<Rightarrow> forEach f xs s')"







definition general_key :: "string \<Rightarrow> string option" where
  "general_key p =
     (case split_char CHR ''.'' p of
        [g, k] \<Rightarrow> if g = ''general'' then Some k else None
      | _ \<Rightarrow> None)"


definition current_value :: "stored option \<Rightarrow> stored option \<Rightarrow> meta \<Rightarrow> error + jv" where
  \<comment> \<open>\<^verbatim>\<open>currentVal\<close> of the callback, for a given entry\<close>
  "current_value project feature m =
     getByPath (if entity m = ''feature'' then entity_details feature else entity_details project)
       (path m)"


definition stored_general :: "stored option \<Rightarrow> stored option \<Rightarrow> meta \<Rightarrow> jv" where
  \<comment> \<open>\<^verbatim>\<open>details.general\<close> of the entity of an entry, \<^verbatim>\<open>{}\<close> when it is falsy or absent\<close>
  "stored_general project feature m =
     or_else (get_prop (if entity m = ''feature'' then entity_details feature
                        else entity_details project) ''general'') (JObj [])"

section \<open>Saving the suggestions\<close>

text \<open>
  \<^verbatim>\<open>applySuggestions\<close> (part_002, 5426) merges the payloads into the stored details and
  sends them to the store, which answers with the saved record; the answer replaces the
  record in the cache. The model keeps the computation of the details that are sent. The
  store is taken to return what it was sent, which is what \<^verbatim>\<open>JSON.stringify\<close> on the way
  out and \<^verbatim>\<open>JSON.parse\<close> on the way back do to a JSON value; details that are not a JSON
  value are outside the model. The feature is saved only when its payload has at least one
  key; otherwise its record stays as it is.
\<close>

definition and_then :: "error + 'a \<Rightarrow> ('a \<Rightarrow> error + 'b) \<Rightarrow> error + 'b" where
  "and_then r f = (case r of Inl e \<Rightarrow> Inl e | Inr x \<Rightarrow> f x)"

definition assign_all :: "jv \<Rightarrow> (string \<times> jv) list \<Rightarrow> error + jv" where
  \<comment> \<open>\<^verbatim>\<open>entries.forEach(([key, val]) => { obj[key] = val; })\<close>\<close>
  "assign_all obj entries = forEach (\<lambda>ob (key, val). assign_prop ob key val) entries obj"

definition apply_project_updates :: "jv \<Rightarrow> jv \<Rightarrow> string \<Rightarrow> jv \<Rightarrow> error + jv" where
  \<comment> \<open>part_002, 5455 to 5466: the details sent for the project\<close>
  "apply_project_updates proj_details projUpdates phaseKey formValues =
     and_then (assign_prop (JObj (own_props (or_else proj_details (JObj [])))) ''general''
                 (JObj (own_props (or_else (get_prop (JObj (own_props (or_else proj_details (JObj []))))
                                               ''general'') (JObj [])))))
       (\<lambda>d1. and_then (assign_prop d1 ''phaseData'' (or_else (get_prop d1 ''phaseData'') (JObj [])))
       (\<lambda>d2. and_then (if phaseKey = [] then Inr d2
                          else and_then (assign_prop (get_prop d2 ''phaseData'') phaseKey formValues)
                                 (\<lambda>phaseData. assign_prop d2 ''phaseData'' phaseData))
       (\<lambda>d3. if truthy (get_prop projUpdates ''general'')
              then and_then (assign_all (get_prop d3 ''general'')
                               (own_props (get_prop projUpdates ''general'')))
                     (\<lambda>general. assign_prop d3 ''general'' general)
              else Inr d3)))"

definition spread_all :: "(string \<times> jv) list \<Rightarrow> (string \<times> jv) list \<Rightarrow> (string \<times> jv) list" where
  \<comment> \<open>the properties of \<^verbatim>\<open>{...a, ...b}\<close>, which are defined and not assigned\<close>
  "spread_all a b = foldl (\<lambda>acc (key, val). set_own key val acc) a b"

definition apply_feature_updates :: "jv \<Rightarrow> jv \<Rightarrow> string \<Rightarrow> jv \<Rightarrow> error + jv" where
  \<comment> \<open>part_002, 5491 to 5499: the details sent for the feature\<close>
  "apply_feature_updates feat_details featUpdates phaseKey formValues =
     and_then (assign_prop (JObj (own_props (or_else feat_details (JObj [])))) ''general''
                 (JObj (spread_all
                    (own_props (or_else (get_prop (JObj (own_props (or_else feat_details (JObj []))))
                                            ''general'') (JObj [])))
                    (own_props (get_prop featUpdates ''general'')))))
       (\<lambda>d1. and_then (assign_prop d1 ''phaseData'' (or_else (get_prop d1 ''phaseData'') (JObj [])))
       (\<lambda>d2. if phaseKey = [] then Inr d2
              else and_then (assign_prop (get_prop d2 ''phaseData'') phaseKey formValues)
                     (\<lambda>phaseData. assign_prop d2 ''phaseData'' phaseData)))"

definition sent_and_returned :: "jv \<Rightarrow> error + jv" where
  "sent_and_returned d = (if json_value d then Inr d else Inl Unmodelled)"

definition saved_project ::
  "stored \<Rightarrow> derived \<Rightarrow> string \<Rightarrow> (string \<times> fval) list \<Rightarrow> error + stored" where
  "saved_project proj r phaseKey formValues =
     and_then (apply_project_updates (details proj) (or_else (projectUpdates r) (JObj []))
                 phaseKey (form_object formValues))
       (\<lambda>d. and_then (sent_and_returned d) (\<lambda>d'. Inr (proj\<lparr>details := d'\<rparr>)))"

definition saved_feature ::
  "stored \<Rightarrow> derived \<Rightarrow> string \<Rightarrow> (string \<times> fval) list \<Rightarrow> error + stored" where
  "saved_feature feat r phaseKey formValues =
     (if truthy (get_prop (or_else (featureUpdates r) (JObj [])) ''general'')
         \<and> own_props (get_prop (or_else (featureUpdates r) (JObj [])) ''general'') \<noteq> []
      then and_then (apply_feature_updates (details feat) (or_else (featureUpdates r) (JObj []))
                       phaseKey (form_object formValues))
             (\<lambda>d. and_then (sent_and_returned d) (\<lambda>d'. Inr (feat\<lparr>details := d'\<rparr>)))
      else Inr feat)"

text \<open>
  What the callback decides for one entry, apart from the state it writes to: the new
  stored value, \<open>None\<close> when the field is skipped. These two functions repeat the tests
  of \<open>derive_field\<close>; the lemma \<open>derive_field_outcome\<close> below proves that they agree
  with it.
\<close>

definition new_value :: "meta \<Rightarrow> jv \<Rightarrow> jv \<Rightarrow> error + jv option" where
  "new_value m currentVal trimmed =
     (if isList m then
        (case normalizeList_jv trimmed of
           Inl e \<Rightarrow> Inl e
         | Inr incomingItems \<Rightarrow>
             if incomingItems = [] then Inr None
             else case normalizeList_jv (or_else currentVal (JStr [])) of
                    Inl e \<Rightarrow> Inl e
                  | Inr currentList \<Rightarrow>
                      (let newItems =
                             filter (\<lambda>v. \<not> list_ex (\<lambda>existing.
                                        toLowerCase existing = toLowerCase v) currentList)
                               incomingItems
                       in if newItems = [] then Inr None
                          else case mergeList_jv (or_else currentVal (JStr [])) newItems of
                                 Inl e \<Rightarrow> Inl e
                               | Inr merged \<Rightarrow> Inr (Some (JStr merged))))
      else
        (case current_string currentVal of
           Inl e \<Rightarrow> Inl e
         | Inr currentString \<Rightarrow>
             if currentString = [] \<or> JStr currentString \<noteq> trimmed
             then Inr (Some trimmed) else Inr None))"

definition field_outcome ::
  "stored option \<Rightarrow> stored option \<Rightarrow> (string \<times> fval) list \<Rightarrow> string \<times> meta
     \<Rightarrow> error + jv option" where
  "field_outcome project feature formValues entry =
     (let v = form_value formValues (fst entry)
      in if v = JUndef \<or> v = JNull \<or> \<not> truthy (trimmed_value v) then Inr None
         else case current_value project feature (snd entry) of
                Inl e \<Rightarrow> Inl e
              | Inr currentVal \<Rightarrow> new_value (snd entry) currentVal (trimmed_value v))"









definition writes ::
  "bool \<Rightarrow> stored option \<Rightarrow> stored option \<Rightarrow> (string \<times> fval) list \<Rightarrow> (string \<times> meta) list
     \<Rightarrow> (string \<times> jv) list" where
  \<comment> \<open>the keys and values that the entries write under \<^verbatim>\<open>general\<close> of one payload
      (\<open>True\<close>: the feature's), in the order of the loop\<close>
  "writes side project feature formValues es =
     concat (map (\<lambda>e. case field_outcome project feature formValues e of
                         Inl err \<Rightarrow> []
                       | Inr None \<Rightarrow> []
                       | Inr (Some new) \<Rightarrow>
                           (case general_key (path (snd e)) of
                              None \<Rightarrow> []
                            | Some key \<Rightarrow>
                                if (entity (snd e) = ''feature'') = side
                                then [(key, new)] else [])) es)"

definition alice_project :: stored where
  \<comment> \<open>the project of the specification's end-to-end scenario\<close>
  "alice_project = \<lparr>rec_id = ''1'', rec_name = ''P'',
       details = JObj [(''general'', JObj [(''stakeholders'', JStr ''Alice - PM'')])]\<rparr>"





section \<open>Reverse mapping: saved phase data and the select heuristic\<close>

text \<open>
  The rendered form is the list of its controls in document order. A control has an id,
  a tag name, a value and, for a \<^verbatim>\<open>select\<close>, its options (text and value). Controls are
  text inputs, text areas and selects; the sanitisation that other input types apply to an
  assigned value is outside the model. An assignment to \<^verbatim>\<open>value\<close> changes the document at
  once, so a loop that throws leaves the controls it has already written: the outcome of
  an exception carries the form.

  \<^verbatim>\<open>querySelector("#" + id)\<close> is modelled for an id that is a plain identifier (a letter
  or an underscore, then letters, digits, hyphens and underscores), where it finds the
  first control with that id, and for an id that is empty or starts with a digit, where it
  throws.
\<close>

record select_option =
  opt_text :: string
  opt_value :: string

record field =
  f_id :: string
  f_tag :: string
  f_value :: string
  f_options :: "select_option list"

definition is_letter :: "char \<Rightarrow> bool" where
  "is_letter c \<longleftrightarrow>
     (65 \<le> (of_char c :: nat) \<and> (of_char c :: nat) \<le> 90)
     \<or> (97 \<le> (of_char c :: nat) \<and> (of_char c :: nat) \<le> 122)"

definition plain_ident :: "string \<Rightarrow> bool" where
  "plain_ident s \<longleftrightarrow>
     s \<noteq> [] \<and> (is_letter (hd s) \<or> hd s = CHR ''_'')
     \<and> list_all (\<lambda>c. is_letter c \<or> is_digit c \<or> c = CHR ''-'' \<or> c = CHR ''_'') s"

definition query_id :: "field list \<Rightarrow> string \<Rightarrow> error + field option" where
  \<comment> \<open>\<^verbatim>\<open>formFields.querySelector(`#${id}`)\<close>\<close>
  "query_id form ident =
     (if ident = [] \<or> is_digit (hd ident) then Inl SyntaxError
      else if plain_ident ident then Inr (find (\<lambda>el. f_id el = ident) form)
      else Inl Unmodelled)"

definition dom_string :: "jv \<Rightarrow> error + string" where
  \<comment> \<open>the string an assignment to \<^verbatim>\<open>value\<close> of an input or a text area stores:
      \<^verbatim>\<open>null\<close> is the empty string\<close>
  "dom_string v = (case v of JNull \<Rightarrow> Inr [] | _ \<Rightarrow> to_text v)"

definition assign_value :: "field \<Rightarrow> jv \<Rightarrow> error + field" where
  \<comment> \<open>\<^verbatim>\<open>el.value = val\<close>: a select takes the value only when one of its options has it\<close>
  "assign_value el val =
     (if f_tag el = ''SELECT''
      then (case to_text val of
              Inl e \<Rightarrow> Inl e
            | Inr s \<Rightarrow>
                Inr (el\<lparr>f_value := (if s \<in> set (map opt_value (f_options el)) then s else [])\<rparr>))
      else (case dom_string val of
              Inl e \<Rightarrow> Inl e
            | Inr s \<Rightarrow> Inr (el\<lparr>f_value := s\<rparr>)))"

fun update_first :: "('a \<Rightarrow> bool) \<Rightarrow> 'a \<Rightarrow> 'a list \<Rightarrow> 'a list" where
  \<comment> \<open>the first element that a selector matches, replaced\<close>
  "update_first P y [] = []"
| "update_first P y (x # xs) = (if P x then y # xs else x # update_first P y xs)"

fun forEach_doc ::
  "('s \<Rightarrow> 'a \<Rightarrow> error \<times> 's + 's) \<Rightarrow> 'a list \<Rightarrow> 's \<Rightarrow> error \<times> 's + 's" where
  \<comment> \<open>A \<^verbatim>\<open>forEach\<close> over a callback that writes to the document and may throw.\<close>
  "forEach_doc f [] s = Inr s"
| "forEach_doc f (x # xs) s = (case f s x of Inl e \<Rightarrow> Inl e | Inr s' \<Rightarrow> forEach_doc f xs s')"

definition apply_raw_value :: "field list \<Rightarrow> string \<times> jv \<Rightarrow> error \<times> field list + field list" where
  \<comment> \<open>the callback of \<^verbatim>\<open>applyRawFormValues\<close>: no test of the control's present value\<close>
  "apply_raw_value form entry =
     (case entry of (ident, val) \<Rightarrow>
        (case query_id form ident of
           Inl e \<Rightarrow> Inl (e, form)
         | Inr None \<Rightarrow> Inr form
         | Inr (Some el) \<Rightarrow>
             (case assign_value el val of
                Inl e \<Rightarrow> Inl (e, form)
              | Inr el' \<Rightarrow> Inr (update_first (\<lambda>el. f_id el = ident) el' form))))"

definition applyRawFormValues ::
  "field list option \<Rightarrow> jv \<Rightarrow> error \<times> field list option + field list option" where
  \<comment> \<open>part_002, 5726; \<open>None\<close> is a page without a form root\<close>
  "applyRawFormValues formFields vals =
     (case formFields of
        None \<Rightarrow> Inr None
      | Some form \<Rightarrow>
          (case forEach_doc apply_raw_value (own_props vals) form of
             Inl (e, form') \<Rightarrow> Inl (e, Some form')
           | Inr form' \<Rightarrow> Inr (Some form')))"

definition saved_phase_values :: "jv \<Rightarrow> jv \<Rightarrow> string \<Rightarrow> jv" where
  \<comment> \<open>part_002, 6213 to 6226: \<^verbatim>\<open>phaseValues\<close>, the feature's saved submission first\<close>
  "saved_phase_values featDetails projDetails phaseKey =
     (let featurePhaseData = or_else (get_prop featDetails ''phaseData'') (JObj []);
          projectPhaseData = or_else (get_prop projDetails ''phaseData'') (JObj [])
      in or_else (get_prop featurePhaseData phaseKey)
           (or_else (get_prop projectPhaseData phaseKey) (JObj [])))"

definition prefill_saved_phase ::
  "field list \<Rightarrow> jv \<Rightarrow> jv \<Rightarrow> string \<Rightarrow> error \<times> field list + field list \<times> bool" where
  \<comment> \<open>part_002, 6224 to 6231: the first step of \<^verbatim>\<open>prefillFromProject\<close>, with the form
      found; the result is the form and \<^verbatim>\<open>applied\<close>\<close>
  "prefill_saved_phase form featDetails projDetails phaseKey =
     (let phaseValues = saved_phase_values featDetails projDetails phaseKey
      in if truthy phaseValues \<and> own_props phaseValues \<noteq> []
         then (case applyRawFormValues (Some form) phaseValues of
                 Inl (e, None) \<Rightarrow> Inl (e, form)
               | Inl (e, Some form') \<Rightarrow> Inl (e, form')
               | Inr None \<Rightarrow> Inr (form, True)
               | Inr (Some form') \<Rightarrow> Inr (form', True))
         else Inr (form, False))"

text \<open>
  \<^verbatim>\<open>applyGeneralMapping\<close> (part_002, 5229), one of the later passes of
  \<^verbatim>\<open>prefillFromProject\<close>: it writes into a control only when the control is blank.
\<close>

definition is_blank :: "string \<Rightarrow> bool" where
  \<comment> \<open>\<^verbatim>\<open>!el.value || el.value.trim() === ""\<close>\<close>
  "is_blank v \<longleftrightarrow> v = [] \<or> trim v = []"

definition general_targets :: "jv \<Rightarrow> (string list \<times> jv) list" where
  \<comment> \<open>\<^verbatim>\<open>mapTargets\<close>\<close>
  "general_targets general =
     [([''project-name'', ''projectName''], or_else (get_prop general ''name'') (JStr [])),
      ([''project-description'', ''featureDescription'', ''businessGoals'', ''business-objectives'',
        ''functional-requirements'', ''current-pain-points''],
       or_else (get_prop general ''overview'') (or_else (get_prop general ''description'') (JStr []))),
      ([''featureDescription''],
       or_else (get_prop general ''description'') (or_else (get_prop general ''overview'') (JStr []))),
      ([''stakeholders'', ''key-stakeholders''], or_else (get_prop general ''stakeholders'') (JStr [])),
      ([''goals'', ''primary-goals'', ''acceptanceCriteria'', ''success-metrics'',
        ''non-functional-requirements''],
       or_else (get_prop general ''goals'') (JStr []))]"

definition fill_if_blank ::
  "jv \<Rightarrow> field list \<times> bool \<Rightarrow> string \<Rightarrow> error \<times> field list \<times> bool + field list \<times> bool" where
  \<comment> \<open>the callback of \<^verbatim>\<open>ids.forEach\<close>, on the form and \<^verbatim>\<open>applied\<close>\<close>
  "fill_if_blank val st ident =
     (case query_id (fst st) ident of
        Inl e \<Rightarrow> Inl (e, st)
      | Inr None \<Rightarrow> Inr st
      | Inr (Some el) \<Rightarrow>
          if is_blank (f_value el)
          then (case assign_value el val of
                  Inl e \<Rightarrow> Inl (e, st)
                | Inr el' \<Rightarrow> Inr (update_first (\<lambda>el. f_id el = ident) el' (fst st), True))
          else Inr st)"

definition applyGeneralMapping ::
  "field list option \<Rightarrow> jv \<Rightarrow> error \<times> field list option \<times> bool + field list option \<times> bool" where
  "applyGeneralMapping formFields general =
     (if \<not> truthy general then Inr (formFields, False)
      else case formFields of
             None \<Rightarrow> Inr (None, False)
           | Some form \<Rightarrow>
               (case forEach_doc (\<lambda>st (ids, val). if \<not> truthy val then Inr st
                                                  else forEach_doc (fill_if_blank val) ids st)
                       (general_targets general) (form, False) of
                  Inl (e, st) \<Rightarrow> Inl (e, Some (fst st), snd st)
                | Inr st \<Rightarrow> Inr (Some (fst st), snd st)))"

definition typed_form :: "field list" where
  \<comment> \<open>a discovery form in which the user has typed the stakeholders\<close>
  "typed_form = [\<lparr>f_id = ''stakeholders'', f_tag = ''TEXTAREA'',
                   f_value = ''Dana - Sponsor'', f_options = []\<rparr>]"

text \<open>
  The select branch of \<^verbatim>\<open>applyHeuristicMapping\<close> (part_002, 5634 and 5674 to 5702), for
  one \<^verbatim>\<open>select\<close> of the form. A control that is not blank is left as it is. The
  candidates are the values that the label's keywords chose; \<^verbatim>\<open>v.trim\<close> is a function on
  a string and on \<^verbatim>\<open>String.prototype\<close> only. The two nested loops carry \<^verbatim>\<open>bestMatch\<close> and
  \<^verbatim>\<open>bestScore\<close>.
\<close>

fun find_candidate :: "jv list \<Rightarrow> error + jv" where
  \<comment> \<open>\<^verbatim>\<open>candidates.find((v) => v && v.trim())\<close>\<close>
  "find_candidate [] = Inr JUndef"
| "find_candidate (v # vs) =
     (if \<not> truthy v then find_candidate vs
      else case v of
             JStr s \<Rightarrow> if trim s \<noteq> [] then Inr v else find_candidate vs
           | JProto c \<Rightarrow> if c = ''String'' then find_candidate vs else Inl TypeError
           | _ \<Rightarrow> Inl TypeError)"

definition role_tokens :: "string \<Rightarrow> string list" where
  "role_tokens rolesString =
     filter (\<lambda>r. r \<noteq> []) (map (\<lambda>r. toLowerCase (trim r)) (split_char CHR '','' rolesString))"

definition direct_match :: "select_option \<Rightarrow> string \<Rightarrow> bool" where
  \<comment> \<open>\<^verbatim>\<open>optText === token || optVal === token\<close>\<close>
  "direct_match opt token \<longleftrightarrow>
     toLowerCase (opt_text opt) = token \<or> toLowerCase (opt_value opt) = token"

definition partial_match :: "select_option \<Rightarrow> string \<Rightarrow> bool" where
  \<comment> \<open>\<^verbatim>\<open>optText.includes(token) || token.includes(optText) || optVal.includes(token)\<close>\<close>
  "partial_match opt token \<longleftrightarrow>
     sublist token (toLowerCase (opt_text opt)) \<or> sublist (toLowerCase (opt_text opt)) token
     \<or> sublist token (toLowerCase (opt_value opt))"

definition token_score :: "select_option \<Rightarrow> string \<Rightarrow> nat" where
  "token_score opt token =
     (if direct_match opt token then length token + 5
      else if partial_match opt token then length token else 0)"

definition match_step ::
  "select_option option \<times> nat \<Rightarrow> select_option \<Rightarrow> string \<Rightarrow> select_option option \<times> nat" where
  "match_step st opt token =
     (if token = [] then st
      else if token_score opt token > snd st then (Some opt, token_score opt token) else st)"

definition best_match :: "select_option list \<Rightarrow> string list \<Rightarrow> select_option option \<times> nat" where
  "best_match opts roleTokens =
     foldl (\<lambda>st opt. foldl (\<lambda>st token. match_step st opt token) st roleTokens) (None, 0) opts"

definition heuristic_select :: "jv list \<Rightarrow> field \<Rightarrow> error + field" where
  \<comment> \<open>the select after the callback of \<^verbatim>\<open>inputs.forEach\<close>\<close>
  "heuristic_select candidates el =
     (if f_value el \<noteq> [] \<and> trim (f_value el) \<noteq> [] then Inr el
      else case find_candidate candidates of
             Inl e \<Rightarrow> Inl e
           | Inr c \<Rightarrow>
               (let rolesString = (case or_else c (JStr []) of JStr s \<Rightarrow> s | _ \<Rightarrow> [])
                in case fst (best_match (f_options el) (role_tokens rolesString)) of
                     None \<Rightarrow> Inr el
                   | Some bestMatch \<Rightarrow> assign_value el (JStr (opt_value bestMatch))))"

text \<open>
  The score of an option is the best score that one of the tokens gives it; the best
  score of the select is the best score of an option. These two say which option the
  loops end on.
\<close>

definition option_score :: "string list \<Rightarrow> select_option \<Rightarrow> nat" where
  "option_score roleTokens opt =
     foldr max (map (token_score opt) (filter (\<lambda>t. t \<noteq> []) roleTokens)) 0"

definition best_score :: "select_option list \<Rightarrow> string list \<Rightarrow> nat" where
  "best_score opts roleTokens = foldr max (map (option_score roleTokens) opts) 0"

definition same_option :: "string \<Rightarrow> select_option" where
  \<comment> \<open>an option whose value is its text\<close>
  "same_option t = \<lparr>opt_text = t, opt_value = t\<rparr>"

definition blank_select :: "string list \<Rightarrow> field" where
  \<comment> \<open>a select with no option selected, whose value is the empty string\<close>
  "blank_select ts = \<lparr>f_id = ''role'', f_tag = ''SELECT'', f_value = [],
                        f_options = map same_option ts\<rparr>"

section \<open>Extraction from a pasted response\<close>

text \<open>
  \<^verbatim>\<open>extractAndPrePopulateNextPhase\<close> (part_002, 3582) applies regular expressions of the
  form \<^verbatim>\<open>/(?:k1|k2|...)[^.]*\./gi\<close>. No keyword contains a full stop, so a match starts
  where some keyword stands, whatever the case of the letters, and ends with the first full
  stop from there on; without a full stop there is no match at that place. The global
  search goes on behind the match. \<^verbatim>\<open>match\<close> returns \<^verbatim>\<open>null\<close> when nothing matches.
\<close>

definition stakeholder_keywords :: "string list" where
  "stakeholder_keywords =
     [''stakeholder'', ''role'', ''responsibility'', ''team'', ''user'', ''person'',
      ''individual'', ''member'', ''decision maker'', ''end user'', ''support team'',
      ''participant'', ''involve'', ''engage'']"

definition people_keywords :: "string list" where
  "people_keywords =
     [''people'', ''individuals'', ''users'', ''staff'', ''employees'', ''customers'',
      ''clients'', ''managers'', ''directors'', ''executives'', ''teams'',
      ''departments'']"

definition painpoint_keywords :: "string list" where
  "painpoint_keywords =
     [''pain point'', ''issue'', ''problem'', ''bottleneck'', ''inefficiency'',
      ''challenge'', ''difficulty'', ''barrier'', ''obstacle'', ''frustration'',
      ''complaint'', ''gap'', ''weakness'', ''limitation'', ''constraint'', ''blocker'',
      ''roadblock'']"

definition problem_keywords :: "string list" where
  "problem_keywords =
     [''problems'', ''issues'', ''challenges'', ''difficulties'', ''barriers'',
      ''obstacles'', ''frustrations'', ''complaints'', ''gaps'', ''weaknesses'',
      ''limitations'', ''constraints'', ''blockers'', ''roadblocks'']"

definition metric_keywords :: "string list" where
  "metric_keywords =
     [''metric'', ''kpi'', ''measure'', ''performance'', ''baseline'', ''target'',
      ''goal'', ''objective'', ''success'', ''outcome'', ''result'', ''indicator'',
      ''measurement'', ''benchmark'', ''standard'', ''criteria'', ''threshold'']"

definition success_keywords :: "string list" where
  "success_keywords =
     [''success'', ''outcome'', ''result'', ''performance'', ''measurement'',
      ''benchmark'', ''standard'', ''criteria'', ''threshold'', ''target'', ''goal'',
      ''objective'']"

definition tech_keywords :: "string list" where
  "tech_keywords =
     [''technology'', ''system'', ''tool'', ''platform'', ''integration'', ''software'',
      ''hardware'', ''database'', ''api'', ''interface'', ''constraint'',
      ''limitation'', ''requirement'', ''dependency'', ''compatibility'', ''security'',
      ''compliance'', ''performance'', ''capacity'', ''resource'']"

definition technical_keywords :: "string list" where
  "technical_keywords =
     [''technical'', ''system'', ''tool'', ''platform'', ''integration'', ''software'',
      ''hardware'', ''database'', ''api'', ''interface'', ''constraint'',
      ''limitation'', ''requirement'', ''dependency'', ''compatibility'', ''security'',
      ''compliance'', ''performance'', ''capacity'', ''resource'']"

definition timeline_keywords :: "string list" where
  "timeline_keywords =
     [''timeline'', ''schedule'', ''duration'', ''phase'', ''month'', ''week'']"

definition budget_keywords :: "string list" where
  "budget_keywords =
     [''budget'', ''cost'', ''resource'', ''investment'', ''expense'']"

definition change_keywords :: "string list" where
  "change_keywords =
     [''change'', ''readiness'', ''resistance'', ''adoption'', ''training'']"

definition keyword_at :: "string list \<Rightarrow> string \<Rightarrow> bool" where
  "keyword_at kws s \<longleftrightarrow> list_ex (\<lambda>kw. prefix kw (toLowerCase s)) kws"

function match_all :: "string list \<Rightarrow> string \<Rightarrow> string list" where
  "match_all kws [] = []"
| "match_all kws (c # cs) =
     (if keyword_at kws (c # cs) \<and> CHR ''.'' \<in> set (c # cs)
      then (takeWhile (\<lambda>x. x \<noteq> CHR ''.'') (c # cs) @ ''.'')
             # match_all kws (tl (dropWhile (\<lambda>x. x \<noteq> CHR ''.'') (c # cs)))
      else match_all kws cs)"
  by pat_completeness auto
termination
proof (relation "measure (\<lambda>(kws, s). length s)")
  show "wf (measure (\<lambda>(kws, s). length s))" by simp
next
  fix kws :: "string list" and c :: char and cs :: string
  have "length (dropWhile (\<lambda>x. x \<noteq> CHR ''.'') (c # cs)) \<le> length (c # cs)"
    by (rule length_dropWhile_le)
  then show "((kws, tl (dropWhile (\<lambda>x. x \<noteq> CHR ''.'') (c # cs))), kws, c # cs)
               \<in> measure (\<lambda>(kws, s). length s)"
    by (cases "dropWhile (\<lambda>x. x \<noteq> CHR ''.'') (c # cs)") auto
next
  fix kws :: "string list" and c :: char and cs :: string
  show "((kws, cs), kws, c # cs) \<in> measure (\<lambda>(kws, s). length s)" by simp
qed

definition extract_matches :: "string list \<Rightarrow> string \<Rightarrow> string option" where
  \<comment> \<open>\<^verbatim>\<open>m = response.match(re)\<close>, then \<^verbatim>\<open>m.join(" ").trim()\<close> when \<^verbatim>\<open>m\<close> is not \<^verbatim>\<open>null\<close>\<close>
  "extract_matches kws response =
     (case match_all kws response of
        [] \<Rightarrow> None
      | m # ms \<Rightarrow> Some (trim (join '' '' (m # ms))))"

definition with_fallback :: "string list \<Rightarrow> string list \<Rightarrow> string \<Rightarrow> string option" where
  \<comment> \<open>the \<^verbatim>\<open>if\<close> and \<^verbatim>\<open>else\<close> of the four fields of the first phase\<close>
  "with_fallback primary fallback response =
     (case extract_matches primary response of
        Some v \<Rightarrow> Some v
      | None \<Rightarrow> extract_matches fallback response)"

definition set_fields :: "(string \<times> string option) list \<Rightarrow> (string \<times> string) list" where
  \<comment> \<open>\<^verbatim>\<open>extractedData\<close>: a key is set only when its text was found\<close>
  "set_fields kvs = concat (map (\<lambda>(k, v). case v of None \<Rightarrow> [] | Some x \<Rightarrow> [(k, x)]) kvs)"

definition extract_phase :: "nat \<Rightarrow> string \<Rightarrow> (string \<times> string) list" where
  "extract_phase phaseIndex response =
     (if phaseIndex = 0 then
        set_fields
          [(''stakeholders'', with_fallback stakeholder_keywords people_keywords response),
           (''currentPainPoints'', with_fallback painpoint_keywords problem_keywords response),
           (''successMetrics'', with_fallback metric_keywords success_keywords response),
           (''technologyConstraints'', with_fallback tech_keywords technical_keywords response)]
      else if phaseIndex = 1 then
        set_fields
          [(''implementationTimeline'', extract_matches timeline_keywords response),
           (''budgetConstraints'', extract_matches budget_keywords response),
           (''changeReadiness'', extract_matches change_keywords response)]
      else [])"

record workflow =
  currentPhase :: nat
  phases :: "string list"
  totalPhases :: nat
  currentFormData :: "(string \<times> string) list"

definition extractAndPrePopulateNextPhase ::
  "workflow \<Rightarrow> string \<Rightarrow> nat option \<Rightarrow> error + workflow" where
  \<comment> \<open>\<^verbatim>\<open>interactiveWorkflow\<close> is the state; a phase is its title. Reading the title of a
      phase that the list does not have throws.\<close>
  "extractAndPrePopulateNextPhase w response currentPhaseIndex =
     (let phaseIndex = (case currentPhaseIndex of Some i \<Rightarrow> i | None \<Rightarrow> currentPhase w);
          nextPhaseIndex = phaseIndex + 1
      in if nextPhaseIndex \<ge> totalPhases w then Inr w
         else if nextPhaseIndex \<ge> length (phases w) then Inl TypeError
         else Inr (w\<lparr>currentFormData :=
                foldl (\<lambda>a (key, val). AList.update key val a) (currentFormData w)
                  (extract_phase phaseIndex response)\<rparr>))"

text \<open>
  The specification's words for the extraction: the response is split on sentence
  terminators and a sentence is kept when it contains a keyword.
\<close>

definition is_terminator :: "char \<Rightarrow> bool" where
  "is_terminator c \<longleftrightarrow> c = CHR ''.'' \<or> c = CHR ''!'' \<or> c = CHR ''?''"

function split_sentences :: "string \<Rightarrow> string list" where
  "split_sentences s =
     (case dropWhile (\<lambda>c. \<not> is_terminator c) s of
        [] \<Rightarrow> (if s = [] then [] else [s])
      | t # rest \<Rightarrow> (takeWhile (\<lambda>c. \<not> is_terminator c) s @ [t]) # split_sentences rest)"
  by pat_completeness auto
termination
proof (relation "measure length")
  show "wf (measure length)" by simp
next
  fix s :: string and t rest
  assume "dropWhile (\<lambda>c. \<not> is_terminator c) s = t # rest"
  then have "length (t # rest) \<le> length s"
    by (metis length_dropWhile_le)
  then show "(rest, s) \<in> measure length" by simp
qed

declare split_sentences.simps [simp del]

definition sentences_with_keyword :: "string list \<Rightarrow> string \<Rightarrow> string list" where
  "sentences_with_keyword kws response =
     filter (\<lambda>sentence. list_ex (\<lambda>kw. sublist kw (toLowerCase sentence)) kws)
       (map trim (split_sentences response))"

text \<open>
  The same search on the response and its lower-cased copy side by side, which lowers the
  response once; \<open>match_all_scan\<close> below proves that it is \<open>match_all\<close>.
\<close>

function scan_lower :: "string list \<Rightarrow> string \<Rightarrow> string \<Rightarrow> string list" where
  "scan_lower kws [] l = []"
| "scan_lower kws (c # cs) l =
     (if list_ex (\<lambda>kw. prefix kw l) kws \<and> CHR ''.'' \<in> set (c # cs)
      then (takeWhile (\<lambda>x. x \<noteq> CHR ''.'') (c # cs) @ ''.'')
             # scan_lower kws (tl (dropWhile (\<lambda>x. x \<noteq> CHR ''.'') (c # cs)))
                 (drop (Suc (length (takeWhile (\<lambda>x. x \<noteq> CHR ''.'') (c # cs)))) l)
      else scan_lower kws cs (tl l))"
  by pat_completeness auto
termination
proof (relation "measure (\<lambda>(kws, s, l). length s)")
  show "wf (measure (\<lambda>(kws, s, l). length s))" by simp
next
  fix kws :: "string list" and c :: char and cs l :: string
  have "length (dropWhile (\<lambda>x. x \<noteq> CHR ''.'') (c # cs)) \<le> length (c # cs)"
    by (rule length_dropWhile_le)
  then show "((kws, tl (dropWhile (\<lambda>x. x \<noteq> CHR ''.'') (c # cs)),
               drop (Suc (length (takeWhile (\<lambda>x. x \<noteq> CHR ''.'') (c # cs)))) l), kws, c # cs, l)
               \<in> measure (\<lambda>(kws, s, l). length s)"
    by (cases "dropWhile (\<lambda>x. x \<noteq> CHR ''.'') (c # cs)") auto
next
  fix kws :: "string list" and c :: char and cs l :: string
  show "((kws, cs, tl l), kws, c # cs, l) \<in> measure (\<lambda>(kws, s, l). length s)" by simp
qed

section \<open>Facts about the string primitives\<close>

lemma trim_Nil [simp]: "trim [] = []" by (simp add: trim_def)

lemma set_trim: "set (trim s) \<subseteq> set s"
proof -
  have "set (trim s) \<subseteq> set (rev (dropWhile is_space s))"
    unfolding trim_def by (metis set_dropWhileD set_rev subsetI)
  also have "\<dots> \<subseteq> set s" by (auto dest: set_dropWhileD)
  finally show ?thesis .
qed

lemma dropWhile_hd_shorter:
  "xs \<noteq> [] \<Longrightarrow> P (hd xs) \<Longrightarrow> length (dropWhile P xs) < length xs"
  by (cases xs) (auto simp: le_imp_less_Suc length_dropWhile_le)

lemma trim_eq_self_iff:
  "trim s = s \<longleftrightarrow> (s = [] \<or> (\<not> is_space (hd s) \<and> \<not> is_space (last s)))"
proof (cases "s = []")
  case True then show ?thesis by simp
next
  case False
  show ?thesis
  proof
    assume t: "trim s = s"
    have "\<not> is_space (hd s)"
    proof
      assume "is_space (hd s)"
      then have "length (dropWhile is_space s) < length s"
        using False by (simp add: dropWhile_hd_shorter)
      moreover have "length (trim s) \<le> length (dropWhile is_space s)"
        unfolding trim_def by (metis length_dropWhile_le length_rev)
      ultimately show False using t by simp
    qed
    moreover have "\<not> is_space (last s)"
    proof
      assume a: "is_space (last s)"
      from \<open>\<not> is_space (hd s)\<close> False have d: "dropWhile is_space s = s" by (cases s) auto
      have "hd (rev s) = last s" using False by (simp add: hd_rev)
      with a False have "length (dropWhile is_space (rev s)) < length (rev s)"
        by (intro dropWhile_hd_shorter) simp_all
      then have "length (trim s) < length s" by (simp add: trim_def d)
      with t show False by simp
    qed
    ultimately show "s = [] \<or> (\<not> is_space (hd s) \<and> \<not> is_space (last s))" by simp
  next
    assume "s = [] \<or> (\<not> is_space (hd s) \<and> \<not> is_space (last s))"
    with False have h: "\<not> is_space (hd s)" and l: "\<not> is_space (last s)" by auto
    from h False have d: "dropWhile is_space s = s" by (cases s) auto
    from l False have "dropWhile is_space (rev s) = rev s"
      by (cases "rev s") (auto simp: last_rev hd_rev dest: arg_cong [where f = hd])
    then show "trim s = s" by (simp add: trim_def d)
  qed
qed

lemma trim_trim [simp]: "trim (trim s) = trim s"
proof (cases "trim s = []")
  case True then show ?thesis by simp
next
  case False
  define a where "a = dropWhile is_space s"
  define b where "b = dropWhile is_space (rev a)"
  have ts: "trim s = rev b" by (simp add: trim_def a_def b_def)
  from False have bne: "b \<noteq> []" by (simp add: ts)
  then have "\<not> is_space (hd b)" unfolding b_def by (metis hd_dropWhile)
  then have l: "\<not> is_space (last (trim s))" using bne by (simp add: ts last_rev)
  from bne have ane: "a \<noteq> []" unfolding b_def by auto
  then have ha: "\<not> is_space (hd a)" unfolding a_def by (metis hd_dropWhile)
  have "rev a = takeWhile is_space (rev a) @ b" by (simp add: b_def)
  then have "a = rev b @ rev (takeWhile is_space (rev a))"
    by (metis rev_append rev_rev_ident)
  with bne have "hd a = hd (rev b)" by (metis hd_append2 rev_is_Nil_conv)
  with ha have "\<not> is_space (hd (trim s))" by (simp add: ts)
  with l show ?thesis by (simp add: trim_eq_self_iff)
qed

lemma trim_space_Cons: "is_space c \<Longrightarrow> trim (c # s) = trim s"
  by (simp add: trim_def)

section \<open>Facts about splitting, joining and the merge loop\<close>

lemma first_new_snoc:
  "first_new base (ts @ [t]) =
     first_new base ts @
       (if toLowerCase t \<notin> toLowerCase ` (set base \<union> set ts) then [t] else [])"
proof -
  have a: "filter (\<lambda>i. toLowerCase ((ts @ [t]) ! i) \<notin> toLowerCase ` (set base \<union> set (take i (ts @ [t]))))
             [0..<length ts]
         = filter (\<lambda>i. toLowerCase (ts ! i) \<notin> toLowerCase ` (set base \<union> set (take i ts)))
             [0..<length ts]"
    by (rule filter_cong) (auto simp: nth_append)
  have b: "map (\<lambda>i. (ts @ [t]) ! i) (filter P [0..<length ts]) = map (\<lambda>i. ts ! i) (filter P [0..<length ts])" for P
    by (rule map_cong) (auto simp: nth_append)
  have c: "take (length ts) (ts @ [t]) = ts" by simp
  show ?thesis
    unfolding first_new_def
    by (simp del: take_append add: a b c)
qed

lemma merge_step_eq:
  "merge_step (base, lower) val =
     (if trim val \<noteq> [] \<and> toLowerCase (trim val) \<notin> lower
      then (base @ [trim val], insert (toLowerCase (trim val)) lower)
      else (base, lower))"
  by (auto simp: merge_step_def Let_def trim_def)

lemma merge_loop:
  "foldl merge_step (base, toLowerCase ` set base) incoming =
     (base @ first_new base (filter (\<lambda>t. t \<noteq> []) (map trim incoming)),
      toLowerCase ` (set base \<union> set (filter (\<lambda>t. t \<noteq> []) (map trim incoming))))"
proof (induction incoming rule: rev_induct)
  case Nil
  show ?case by (simp add: first_new_def)
next
  case (snoc v vs)
  show ?case
    by (simp add: snoc merge_step_eq first_new_snoc) blast
qed

lemma split_seps_nosep:
  "\<forall>c\<in>set s. \<not> is_sep c \<Longrightarrow> split_seps s = [s]"
proof -
  assume a: "\<forall>c\<in>set s. \<not> is_sep c"
  then have d: "dropWhile (\<lambda>c. \<not> is_sep c) s = []" by simp
  show ?thesis by (subst split_seps.simps, subst d) simp
qed

lemma split_seps_cut:
  assumes "\<forall>c\<in>set x. \<not> is_sep c" and "is_sep d"
  shows "split_seps (x @ d # rest) = x # split_seps (dropWhile is_sep rest)"
proof -
  have d: "dropWhile (\<lambda>c. \<not> is_sep c) (x @ d # rest) = d # rest"
    using assms by (simp add: dropWhile_append3)
  have t: "takeWhile (\<lambda>c. \<not> is_sep c) (x @ d # rest) = x"
    using assms by (simp add: takeWhile_tail)
  show ?thesis by (subst split_seps.simps) (simp add: d t)
qed

lemma split_seps_pieces:
  "p \<in> set (split_seps s) \<Longrightarrow> c \<in> set p \<Longrightarrow> \<not> is_sep c \<and> c \<in> set s"
proof (induction s arbitrary: p rule: split_seps.induct)
  case (1 s)
  show ?case
  proof (cases "dropWhile (\<lambda>c. \<not> is_sep c) s")
    case Nil
    with "1.prems" have "p = s" by (subst (asm) split_seps.simps) simp
    moreover from Nil have "\<forall>c\<in>set s. \<not> is_sep c" by simp
    ultimately show ?thesis using "1.prems" by simp
  next
    case (Cons r rs)
    with "1.prems"(1) have "p = takeWhile (\<lambda>c. \<not> is_sep c) s \<or> p \<in> set (split_seps (dropWhile is_sep rs))"
      by (subst (asm) split_seps.simps) simp
    then show ?thesis
    proof
      assume "p = takeWhile (\<lambda>c. \<not> is_sep c) s"
      with "1.prems"(2) show ?thesis by (auto dest: set_takeWhileD)
    next
      assume "p \<in> set (split_seps (dropWhile is_sep rs))"
      with "1.IH" [OF Cons] "1.prems"(2) have "\<not> is_sep c \<and> c \<in> set (dropWhile is_sep rs)" by blast
      moreover have "set (dropWhile is_sep rs) \<subseteq> set s"
        by (metis Cons set_dropWhileD set_subset_Cons subsetI subset_trans)
      ultimately show ?thesis by blast
    qed
  qed
qed

lemma normalizeList_clean: "i \<in> set (normalizeList s) \<Longrightarrow> clean_item i"
proof -
  assume "i \<in> set (normalizeList s)"
  then obtain p where p: "p \<in> set (split_seps s)" and i: "i = trim p" and ne: "i \<noteq> []"
    by (auto simp: normalizeList_def)
  have "\<forall>c\<in>set i. \<not> is_sep c"
    using split_seps_pieces [OF p] set_trim [of p] i by blast
  with i ne show ?thesis by (simp add: clean_item_def)
qed

lemma not_sep_space: "\<not> is_sep (CHR '' '')" by (simp add: is_sep_def)
lemma sep_comma: "is_sep (CHR '','')" by (simp add: is_sep_def)
lemma space_space: "is_space (CHR '' '')" by (simp add: is_space_def)

lemma join_nosep_unfold:
  "join '', '' (y # z # zs) = y @ CHR '','' # (CHR '' '' # join '', '' (z # zs))"
  by simp

lemma split_seps_join:
  "\<forall>i\<in>set (y # ys). \<forall>c\<in>set i. \<not> is_sep c \<Longrightarrow> \<forall>c\<in>set p. \<not> is_sep c \<Longrightarrow>
   split_seps (p @ join '', '' (y # ys)) = (p @ y) # map (\<lambda>i. CHR '' '' # i) ys"
proof (induction ys arbitrary: p y)
  case Nil
  then have "\<forall>c\<in>set (p @ y). \<not> is_sep c" by auto
  then show ?case by (simp add: split_seps_nosep)
next
  case (Cons z zs)
  have py: "\<forall>c\<in>set (p @ y). \<not> is_sep c" using Cons.prems by auto
  have "split_seps (p @ join '', '' (y # z # zs))
        = split_seps ((p @ y) @ CHR '','' # (CHR '' '' # join '', '' (z # zs)))"
    by simp
  also have "\<dots> = (p @ y) # split_seps (dropWhile is_sep (CHR '' '' # join '', '' (z # zs)))"
    by (rule split_seps_cut [OF py sep_comma])
  also have "dropWhile is_sep (CHR '' '' # join '', '' (z # zs)) = [CHR '' ''] @ join '', '' (z # zs)"
    by (simp add: not_sep_space)
  also have "split_seps ([CHR '' ''] @ join '', '' (z # zs)) = ([CHR '' ''] @ z) # map (\<lambda>i. CHR '' '' # i) zs"
    using Cons.prems by (intro Cons.IH) (auto simp: not_sep_space)
  finally show ?case by simp
qed

lemma normalizeList_join:
  assumes "\<forall>i\<in>set items. clean_item i"
  shows "normalizeList (join '', '' items) = items"
proof (cases items)
  case Nil
  then show ?thesis by (simp add: normalizeList_def split_seps_nosep)
next
  case (Cons y ys)
  have s: "split_seps (join '', '' (y # ys)) = y # map (\<lambda>i. CHR '' '' # i) ys"
    using split_seps_join [of y ys "[]"] assms Cons by (simp add: clean_item_def)
  have t: "map trim (map (\<lambda>i. CHR '' '' # i) ys) = ys"
    using assms Cons by (simp add: map_idI trim_space_Cons space_space clean_item_def)
  have "map trim (y # map (\<lambda>i. CHR '' '' # i) ys) = y # ys"
    using assms Cons t by (simp add: clean_item_def)
  moreover have "filter (\<lambda>v. v \<noteq> []) (y # ys) = y # ys"
    using assms Cons by (auto simp: clean_item_def filter_id_conv)
  ultimately show ?thesis by (simp add: normalizeList_def s Cons)
qed

lemma first_new_lower:
  "toLowerCase ` (set base \<union> set (first_new base ts)) = toLowerCase ` (set base \<union> set ts)"
proof (induction ts rule: rev_induct)
  case Nil show ?case by (simp add: first_new_def)
next
  case (snoc t ts)
  then show ?case by (auto simp: first_new_snoc image_Un)
qed

lemma first_new_subset: "set (first_new base ts) \<subseteq> set ts"
  by (auto simp: first_new_def)

lemma first_new_distinct:
  "distinct (map toLowerCase base) \<Longrightarrow> distinct (map toLowerCase (base @ first_new base ts))"
proof (induction ts rule: rev_induct)
  case Nil then show ?case by (simp add: first_new_def)
next
  case (snoc t ts)
  have "toLowerCase t \<notin> toLowerCase ` (set base \<union> set ts) \<Longrightarrow>
        toLowerCase t \<notin> toLowerCase ` (set base \<union> set (first_new base ts))"
    by (metis first_new_lower)
  with snoc show ?case by (auto simp: first_new_snoc image_Un)
qed

lemma split_char_ne [simp]: "split_char d s \<noteq> []"
  by (induction s) (auto split: list.splits)

lemma split_char_nosep: "d \<notin> set s \<Longrightarrow> split_char d s = [s]"
  by (induction s) auto

lemma split_char_cut: "d \<notin> set x \<Longrightarrow> split_char d (x @ d # rest) = x # split_char d rest"
  by (induction x) auto

lemma split_char_join:
  "\<forall>i\<in>set (y # ys). CHR '','' \<notin> set i \<Longrightarrow> CHR '','' \<notin> set p \<Longrightarrow>
   split_char CHR '','' (p @ join '', '' (y # ys)) = (p @ y) # map (\<lambda>i. CHR '' '' # i) ys"
proof (induction ys arbitrary: p y)
  case Nil
  then show ?case by (simp add: split_char_nosep)
next
  case (Cons z zs)
  have py: "CHR '','' \<notin> set (p @ y)" using Cons.prems by auto
  have "split_char CHR '','' (p @ join '', '' (y # z # zs))
        = split_char CHR '','' ((p @ y) @ CHR '','' # ([CHR '' ''] @ join '', '' (z # zs)))"
    by simp
  also have "\<dots> = (p @ y) # split_char CHR '','' ([CHR '' ''] @ join '', '' (z # zs))"
    by (rule split_char_cut [OF py])
  also have "split_char CHR '','' ([CHR '' ''] @ join '', '' (z # zs))
             = ([CHR '' ''] @ z) # map (\<lambda>i. CHR '' '' # i) zs"
    using Cons.prems by (intro Cons.IH) auto
  finally show ?case by simp
qed

lemma trim_split_join:
  assumes "\<forall>i\<in>set items. trim i = i \<and> CHR '','' \<notin> set i" and "items \<noteq> []"
  shows "map trim (split_char CHR '','' (join '', '' items)) = items"
proof -
  from assms(2) obtain y ys where c: "items = y # ys" by (cases items) auto
  have s: "split_char CHR '','' (join '', '' (y # ys)) = y # map (\<lambda>i. CHR '' '' # i) ys"
    using split_char_join [of y ys "[]"] assms(1) c by simp
  have t: "map trim (map (\<lambda>i. CHR '' '' # i) ys) = ys"
    using assms(1) c by (simp add: map_idI trim_space_Cons space_space)
  show ?thesis using assms(1) c t by (simp add: s)
qed

lemma mergeList_items:
  "mergeList existing incoming =
     join '', '' (normalizeList existing @
        first_new (normalizeList existing) (filter (\<lambda>t. t \<noteq> []) (map trim incoming)))"
  by (simp add: mergeList_def Let_def merge_loop)

lemma mergeList_example:
  "mergeList ''Alice - PM, Bob - Dev'' [''bob - Dev'', ''Carol - QA'']
     = ''Alice - PM, Bob - Dev, Carol - QA''"
  by code_simp

text \<open>
  Claim C2, as amended. The merged string is the existing items, in their order and all of
  them, followed by the incoming items (trimmed, the ones empty after trimming skipped) whose
  lower-cased form is neither in the current list nor among the earlier incoming items, in
  encounter order, joined with a comma and a space. Merging the current list
  \<^verbatim>\<open>Alice - PM, Bob - Dev\<close> with the incoming \<^verbatim>\<open>bob - Dev\<close> and \<^verbatim>\<open>Carol - QA\<close> gives
  \<^verbatim>\<open>Alice - PM, Bob - Dev, Carol - QA\<close>.
\<close>

theorem mergeList_appends_first_occurrences:
  "mergeList existing incoming =
     join '', '' (normalizeList existing @
        first_new (normalizeList existing) (filter (\<lambda>t. t \<noteq> []) (map trim incoming)))
   \<and> mergeList ''Alice - PM, Bob - Dev'' [''bob - Dev'', ''Carol - QA'']
       = ''Alice - PM, Bob - Dev, Carol - QA''"
  using mergeList_items mergeList_example by simp

text \<open>The characterisation of C2 at a concrete merge.\<close>

theorem mergeList_appends_first_occurrences_witness:
  "mergeList ''a; B'' ['' b'', ''C '', ''c'', '''', ''d''] = ''a, B, C, d''
   \<and> first_new [''a'', ''B''] [''b'', ''C'', ''c'', ''d''] = [''C'', ''d'']"
proof -
  have a: "normalizeList ''a; B'' = [''a'', ''B'']" by code_simp
  have b: "filter (\<lambda>t. t \<noteq> []) (map trim ['' b'', ''C '', ''c'', '''', ''d'']) = [''b'', ''C'', ''c'', ''d'']"
    by code_simp
  have c: "first_new [''a'', ''B''] [''b'', ''C'', ''c'', ''d''] = [''C'', ''d'']" by code_simp
  from mergeList_appends_first_occurrences [of "''a; B''" "['' b'', ''C '', ''c'', '''', ''d'']"]
  have "mergeList ''a; B'' ['' b'', ''C '', ''c'', '''', ''d'']
        = join '', '' ([''a'', ''B''] @ [''C'', ''d''])"
    by (simp only: a b c)
  then show ?thesis using c by simp
qed

text \<open>
  Claim C2 as it is written says that every incoming item whose lower-cased form is absent
  from the current list is appended. Two incoming items that differ only in case are both
  absent from an empty current list, and only the first is appended.
\<close>

theorem mergeList_all_absent_counterexample:
  "mergeList '''' [''Bob'', ''bob'']
     \<noteq> join '', '' (normalizeList '''' @ absent_from_current (normalizeList '''') [''Bob'', ''bob''])"
  by code_simp

lemma merged_items_props:
  assumes "\<forall>v\<in>set incoming. CHR '','' \<notin> set v"
      and "i \<in> set (normalizeList existing @
             first_new (normalizeList existing) (filter (\<lambda>t. t \<noteq> []) (map trim incoming)))"
  shows "trim i = i \<and> CHR '','' \<notin> set i"
proof (cases "i \<in> set (normalizeList existing)")
  case True
  then have "clean_item i" by (rule normalizeList_clean)
  then show ?thesis by (auto simp: clean_item_def is_sep_def)
next
  case False
  with assms(2) have "i \<in> set (filter (\<lambda>t. t \<noteq> []) (map trim incoming))"
    using first_new_subset by fastforce
  then obtain v where v: "v \<in> set incoming" and i: "i = trim v" by auto
  with assms(1) set_trim [of v] show ?thesis by auto
qed

text \<open>
  Claim C10, as amended. When the items of the existing string are pairwise different up
  to case and no incoming item contains a comma, the merged string, split on commas and
  trimmed, has no two items that are equal up to case.
\<close>

theorem mergeList_no_ci_duplicates:
  assumes "distinct (map toLowerCase (normalizeList existing))"
      and "\<forall>v\<in>set incoming. CHR '','' \<notin> set v"
  shows "distinct (map toLowerCase (map trim (split_char CHR '','' (mergeList existing incoming))))"
proof -
  define items where "items = normalizeList existing @
        first_new (normalizeList existing) (filter (\<lambda>t. t \<noteq> []) (map trim incoming))"
  have m: "mergeList existing incoming = join '', '' items"
    by (simp add: items_def mergeList_items)
  show ?thesis
  proof (cases "items = []")
    case True
    then show ?thesis by (simp add: m)
  next
    case False
    have "\<forall>i\<in>set items. trim i = i \<and> CHR '','' \<notin> set i"
      using merged_items_props [OF assms(2)] unfolding items_def by blast
    then have "map trim (split_char CHR '','' (join '', '' items)) = items"
      using False by (rule trim_split_join)
    moreover have "distinct (map toLowerCase items)"
      unfolding items_def using assms(1) by (rule first_new_distinct)
    ultimately show ?thesis by (simp add: m)
  qed
qed

text \<open>C10 at a concrete merge whose incoming list repeats an item in another case.\<close>

theorem mergeList_no_ci_duplicates_witness:
  "distinct (map toLowerCase (normalizeList ''Alice - PM, Bob - Dev''))
   \<and> list_all (\<lambda>v. CHR '','' \<notin> set v) [''bob - Dev'', ''Carol - QA'', ''CAROL - qa'']
   \<and> distinct (map toLowerCase (map trim (split_char CHR '',''
         (mergeList ''Alice - PM, Bob - Dev'' [''bob - Dev'', ''Carol - QA'', ''CAROL - qa'']))))"
proof -
  have a: "distinct (map toLowerCase (normalizeList ''Alice - PM, Bob - Dev''))" by code_simp
  have b: "\<forall>v\<in>set [''bob - Dev'', ''Carol - QA'', ''CAROL - qa'']. CHR '','' \<notin> set v" by simp
  from mergeList_no_ci_duplicates [OF a b] a show ?thesis by simp
qed

text \<open>
  Claim C10 as it is written fails: the merge never removes an existing item, so two
  existing items that differ only in case both stay; and an incoming item is appended as
  it is, commas included.
\<close>

theorem mergeList_no_ci_duplicates_counterexample:
  "\<not> distinct (map toLowerCase (map trim (split_char CHR '','' (mergeList ''a, A'' []))))
   \<and> \<not> distinct (map toLowerCase (map trim (split_char CHR '','' (mergeList '''' [''b,B'']))))"
  by code_simp


section \<open>Facts about objects and paths\<close>

lemma map_of_takeWhile_None:
  "k \<notin> fst ` set kvs \<Longrightarrow> map_of (takeWhile P kvs) k = None"
proof -
  assume "k \<notin> fst ` set kvs"
  moreover have "set (takeWhile P kvs) \<subseteq> set kvs" by (auto dest: set_takeWhileD)
  ultimately have "k \<notin> fst ` set (takeWhile P kvs)" by auto
  then show ?thesis by (simp add: map_of_eq_None_iff)
qed

lemma map_of_split_While:
  "map_of (dropWhile P kvs) ++ map_of (takeWhile P kvs) = map_of kvs"
proof -
  have "map_of (takeWhile P kvs @ dropWhile P kvs) = map_of (dropWhile P kvs) ++ map_of (takeWhile P kvs)"
    by (rule map_of_append)
  then show ?thesis by simp
qed

lemma map_of_set_own: "map_of (set_own k v kvs) = (map_of kvs)(k \<mapsto> v)"
proof (cases "k \<in> set (map fst kvs)")
  case True
  then show ?thesis by (simp add: set_own_def update_conv')
next
  case False
  then have n: "k \<notin> fst ` set kvs" by simp
  show ?thesis
  proof (cases "is_index k")
    case no: False
    from n have "map_of kvs k = None" by (simp add: map_of_eq_None_iff)
    with False no show ?thesis
      by (auto simp: set_own_def map_add_def fun_eq_iff split: option.splits)
  next
    case True
    let ?P = "comes_before k"
    have t: "map_of (takeWhile ?P kvs) k = None" using n by (rule map_of_takeWhile_None)
    have "map_of (takeWhile ?P kvs @ [(k, v)] @ dropWhile ?P kvs) x = ((map_of kvs)(k \<mapsto> v)) x" for x
    proof (cases "x = k")
      case True
      with t show ?thesis by (simp add: map_add_def)
    next
      case False
      have "map_of (takeWhile ?P kvs @ [(k, v)] @ dropWhile ?P kvs) x
              = (map_of (dropWhile ?P kvs) ++ map_of (takeWhile ?P kvs)) x"
        using False by (simp add: map_add_def split: option.splits)
      with False show ?thesis by (simp only: map_of_split_While) simp
    qed
    then have "map_of (takeWhile ?P kvs @ [(k, v)] @ dropWhile ?P kvs) = (map_of kvs)(k \<mapsto> v)"
      by (intro ext)
    with True False show ?thesis by (simp add: set_own_def)
  qed
qed

lemma set_own_Nil [simp]: "set_own k v [] = [(k, v)]"
  by (simp add: set_own_def)

lemma set_own_same [simp]: "set_own k v [(k, w)] = [(k, v)]"
  by (simp add: set_own_def)

lemma inherited_plain: "\<not> builtin_key v k \<Longrightarrow> inherited v k = JUndef"
  by (simp add: builtin_key_def inherited_def)

lemma get_prop_own:
  "\<not> builtin_key v k \<Longrightarrow>
   get_prop v k = (case map_of (own_props v) k of Some x \<Rightarrow> x | None \<Rightarrow> JUndef)"
  by (cases v) (auto simp: get_prop_def inherited_plain builtin_key_def split: option.splits)



lemma phaseData_not_builtin: "\<not> builtin_key v ''phaseData''"
  by (cases v)
     (simp_all add: builtin_key_def object_methods_def string_methods_def array_methods_def
        number_methods_def boolean_methods_def)

lemma get_prop_falsy: "\<not> truthy x \<Longrightarrow> \<not> builtin_key x k \<Longrightarrow> get_prop x k = JUndef"
  by (cases x) (auto simp: get_prop_def inherited_plain builtin_key_def split: if_splits)

lemma walk_undef: "walk JUndef ks = Inr JUndef"
  by (induction ks) auto




lemma assign_prop_plain:
  "k \<noteq> ''__proto__'' \<Longrightarrow> assign_prop (JObj kvs) k v = Inr (JObj (set_own k v kvs))"
  by simp

section \<open>Facts about single fields\<close>

























section \<open>Absent records and exceptions\<close>































section \<open>The select heuristic\<close>

lemma option_score_Cons:
  "option_score (t # ts) opt =
     (if t = [] then option_score ts opt else max (token_score opt t) (option_score ts opt))"
  by (simp add: option_score_def)

lemma inner_loop:
  "foldl (\<lambda>st token. match_step st opt token) (bm, bs) ts =
     (if option_score ts opt > bs then (Some opt, option_score ts opt) else (bm, bs))"
proof (induction ts arbitrary: bm bs)
  case Nil
  show ?case by (simp add: option_score_def)
next
  case (Cons t ts)
  show ?case
  proof (cases "t = []")
    case True
    then have "match_step (bm, bs) opt t = (bm, bs)" by (simp add: match_step_def)
    with True show ?thesis by (simp add: Cons option_score_Cons)
  next
    case False
    show ?thesis
    proof (cases "token_score opt t > bs")
      case True
      with False have "match_step (bm, bs) opt t = (Some opt, token_score opt t)"
        by (simp add: match_step_def)
      with False True show ?thesis
        by (simp add: Cons option_score_Cons max_def)
    next
      case no: False
      with False have "match_step (bm, bs) opt t = (bm, bs)"
        by (simp add: match_step_def)
      with False no show ?thesis
        by (auto simp: Cons option_score_Cons max_def)
    qed
  qed
qed

lemma best_score_Cons:
  "best_score (x # xs) ts = max (option_score ts x) (best_score xs ts)"
  by (simp add: best_score_def)

lemma outer_loop:
  "foldl (\<lambda>st opt. foldl (\<lambda>st token. match_step st opt token) st ts) (bm, bs) opts =
     (if best_score opts ts > bs
      then (find (\<lambda>x. option_score ts x = best_score opts ts) opts, best_score opts ts)
      else (bm, bs))"
proof (induction opts arbitrary: bm bs)
  case Nil
  show ?case by (simp add: best_score_def)
next
  case (Cons x xs)
  show ?case
  proof (cases "option_score ts x > bs")
    case True
    then show ?thesis
      by (simp add: inner_loop Cons best_score_Cons max_def)
  next
    case False
    then show ?thesis
      by (auto simp: inner_loop Cons best_score_Cons max_def)
  qed
qed

lemma best_match_first_max:
  "fst (best_match opts ts) =
     (if best_score opts ts = 0 then None
      else find (\<lambda>x. option_score ts x = best_score opts ts) opts)"
  by (simp add: best_match_def outer_loop)

lemma best_match_member: "fst (best_match opts ts) = Some b \<Longrightarrow> b \<in> set opts"
  by (auto simp: best_match_first_max find_Some_iff split: if_splits)

lemma not_blank_kept: "\<not> is_blank (f_value el) \<Longrightarrow> heuristic_select candidates el = Inr el"
  by (simp add: heuristic_select_def is_blank_def)

lemma blank_select_takes:
  assumes "is_blank (f_value el)" and "f_tag el = ''SELECT''"
      and "find_candidate candidates = Inr c" and "c = JUndef \<or> c = JStr s"
  shows "heuristic_select candidates el =
           Inr (case fst (best_match (f_options el) (role_tokens (if c = JUndef then [] else s))) of
                  None \<Rightarrow> el
                | Some bestMatch \<Rightarrow> el\<lparr>f_value := opt_value bestMatch\<rparr>)"
proof -
  define rolesString where "rolesString = (if c = JUndef then [] else s)"
  define best where "best = fst (best_match (f_options el) (role_tokens rolesString))"
  have b: "\<not> (f_value el \<noteq> [] \<and> trim (f_value el) \<noteq> [])"
    using assms(1) by (auto simp: is_blank_def)
  have r: "(case or_else c (JStr []) of JStr s \<Rightarrow> s | _ \<Rightarrow> []) = rolesString"
    using assms(4) by (auto simp: or_else_def rolesString_def)
  have a: "assign_value el (JStr (opt_value x)) = Inr (el\<lparr>f_value := opt_value x\<rparr>)"
    if "x \<in> set (f_options el)" for x
    using that assms(2) by (simp add: assign_value_def)
  have h: "heuristic_select candidates el =
             (case best of
                None \<Rightarrow> Inr el
              | Some bestMatch \<Rightarrow> assign_value el (JStr (opt_value bestMatch)))"
    unfolding heuristic_select_def Let_def best_def
    by (simp only: b assms(3) if_False sum.case r)
  have "heuristic_select candidates el =
          Inr (case best of None \<Rightarrow> el | Some bestMatch \<Rightarrow> el\<lparr>f_value := opt_value bestMatch\<rparr>)"
  proof (cases best)
    case None
    then show ?thesis unfolding h by simp
  next
    case (Some x)
    then have "x \<in> set (f_options el)" unfolding best_def by (rule best_match_member)
    then show ?thesis unfolding h Some by (simp add: a)
  qed
  then show ?thesis unfolding best_def rolesString_def .
qed

lemma developer_example:
  "heuristic_select [JStr ''Developer, QA'']
      (blank_select [''Product Manager'', ''Developer'', ''QA Engineer''])
     = Inr ((blank_select [''Product Manager'', ''Developer'', ''QA Engineer''])
              \<lparr>f_value := ''Developer''\<rparr>)"
  by code_simp

text \<open>
  Claim C6, as amended. A select that holds a value that is not blank is left as it is.
  On a blank select the loops end on the first option with the highest score, where the
  score of an option is the best score that a token of the candidate text gives it, and
  no option is chosen when every score is zero (or when there is no candidate). A token
  that equals the option's text or value scores its length plus five; a token that is
  part of the option's text or value, or has the option's text as a part, scores its
  length; any other token scores nothing. So for one and the same token an exact match
  outranks a partial overlap. On a blank select with the options \<^verbatim>\<open>Product Manager\<close>,
  \<^verbatim>\<open>Developer\<close>, \<^verbatim>\<open>QA Engineer\<close> and the candidate text \<^verbatim>\<open>Developer, QA\<close> the select
  takes \<^verbatim>\<open>Developer\<close>.
\<close>

theorem select_picks_first_highest_score:
  "fst (best_match opts roleTokens) =
     (if best_score opts roleTokens = 0 then None
      else find (\<lambda>x. option_score roleTokens x = best_score opts roleTokens) opts)
   \<and> (direct_match o1 t \<longrightarrow> token_score o1 t = length t + 5)
   \<and> (\<not> direct_match o2 t \<longrightarrow> partial_match o2 t \<longrightarrow> token_score o2 t = length t)
   \<and> (\<not> direct_match o3 t \<longrightarrow> \<not> partial_match o3 t \<longrightarrow> token_score o3 t = 0)
   \<and> (\<not> is_blank (f_value el) \<longrightarrow> heuristic_select candidates el = Inr el)
   \<and> (is_blank (f_value el) \<longrightarrow> f_tag el = ''SELECT'' \<longrightarrow>
        find_candidate candidates = Inr c \<longrightarrow> c = JUndef \<or> c = JStr s \<longrightarrow>
        heuristic_select candidates el =
          Inr (case fst (best_match (f_options el) (role_tokens (if c = JUndef then [] else s))) of
                 None \<Rightarrow> el
               | Some bestMatch \<Rightarrow> el\<lparr>f_value := opt_value bestMatch\<rparr>))
   \<and> heuristic_select [JStr ''Developer, QA'']
        (blank_select [''Product Manager'', ''Developer'', ''QA Engineer''])
       = Inr ((blank_select [''Product Manager'', ''Developer'', ''QA Engineer''])
                \<lparr>f_value := ''Developer''\<rparr>)"
  using best_match_first_max [of opts roleTokens] developer_example
        not_blank_kept [of el candidates] blank_select_takes [of el candidates c s]
  by (simp add: token_score_def)

text \<open>
  C6 on the token \<^verbatim>\<open>developer\<close>: an option that equals it, one that contains it and one
  that has nothing of it; three options of which two match the token exactly; and a select
  on which the first option is selected already.
\<close>

theorem select_picks_first_highest_score_witness:
  "fst (best_match [same_option ''Dev'', same_option ''Developer'', same_option ''developer'']
          [''developer''])
     = Some (same_option ''Developer'')
   \<and> token_score (same_option ''Developer'') ''developer'' = 14
   \<and> token_score (same_option ''Lead Developer'') ''developer'' = 9
   \<and> token_score (same_option ''QA'') ''developer'' = 0
   \<and> heuristic_select [JStr ''Developer, QA'']
        ((blank_select [''Product Manager'', ''Developer'', ''QA Engineer''])
           \<lparr>f_value := ''Product Manager''\<rparr>)
       = Inr ((blank_select [''Product Manager'', ''Developer'', ''QA Engineer''])
                \<lparr>f_value := ''Product Manager''\<rparr>)
   \<and> heuristic_select [JNull, JStr ''  '', JStr ''QA lead, developer'']
        (blank_select [''Product Manager'', ''Developer'', ''QA Engineer''])
       = Inr ((blank_select [''Product Manager'', ''Developer'', ''QA Engineer''])
                \<lparr>f_value := ''Developer''\<rparr>)"
proof -
  let ?opts = "[same_option ''Dev'', same_option ''Developer'', same_option ''developer'']"
  let ?sel = "blank_select [''Product Manager'', ''Developer'', ''QA Engineer'']"
  let ?pre = "?sel\<lparr>f_value := ''Product Manager''\<rparr>"
  let ?cands = "[JNull, JStr ''  '', JStr ''QA lead, developer'']"
  have b: "best_score ?opts [''developer''] = 14" by code_simp
  have f: "find (\<lambda>x. option_score [''developer''] x = 14) ?opts = Some (same_option ''Developer'')"
    by code_simp
  have d1: "direct_match (same_option ''Developer'') ''developer''" by code_simp
  have d2: "\<not> direct_match (same_option ''Lead Developer'') ''developer''" by code_simp
  have p2: "partial_match (same_option ''Lead Developer'') ''developer''" by code_simp
  have d3: "\<not> direct_match (same_option ''QA'') ''developer''" by code_simp
  have p3: "\<not> partial_match (same_option ''QA'') ''developer''" by code_simp
  have nb: "\<not> is_blank (f_value ?pre)" by code_simp
  have bl: "is_blank (f_value ?sel)" by code_simp
  have tg: "f_tag ?sel = ''SELECT''" by code_simp
  have fc: "find_candidate ?cands = Inr (JStr ''QA lead, developer'')" by code_simp
  note T = select_picks_first_highest_score [of ?opts "[''developer'']" "same_option ''Developer''"
      "''developer''" "same_option ''Lead Developer''" "same_option ''QA''"]
  from T [of ?pre] have "fst (best_match ?opts [''developer''])
                 = (if best_score ?opts [''developer''] = 0 then None
                    else find (\<lambda>x. option_score [''developer''] x
                                     = best_score ?opts [''developer'']) ?opts)"
    by (rule conjunct1)
  then have 1: "fst (best_match ?opts [''developer'']) = Some (same_option ''Developer'')"
    unfolding b f by simp
  from T [of ?pre] d1 have 2: "token_score (same_option ''Developer'') ''developer'' = 14" by simp
  from T [of ?pre] d2 p2 have 3: "token_score (same_option ''Lead Developer'') ''developer'' = 9"
    by simp
  from T [of ?pre] d3 p3 have 4: "token_score (same_option ''QA'') ''developer'' = 0" by simp
  from T [of ?pre "[JStr ''Developer, QA'']"] nb
  have 5: "heuristic_select [JStr ''Developer, QA''] ?pre = Inr ?pre" by blast
  from T [of ?sel ?cands "JStr ''QA lead, developer''" "''QA lead, developer''"] bl tg fc
  have "heuristic_select ?cands ?sel =
          Inr (case fst (best_match (f_options ?sel)
                      (role_tokens (if JStr ''QA lead, developer'' = JUndef then []
                                    else ''QA lead, developer''))) of
                 None \<Rightarrow> ?sel
               | Some bestMatch \<Rightarrow> ?sel\<lparr>f_value := opt_value bestMatch\<rparr>)" (is "_ = ?R")
    by blast
  moreover have "?R = Inr (?sel\<lparr>f_value := ''Developer''\<rparr>)" by code_simp
  ultimately have 6: "heuristic_select ?cands ?sel = Inr (?sel\<lparr>f_value := ''Developer''\<rparr>)"
    by (rule trans)
  from 1 2 3 4 5 6 show ?thesis by (intro conjI)
qed

text \<open>
  Claim C6 as it is written says that exact token matches outrank partial overlaps. The
  score grows with the length of the token, so a partial overlap of a long token outranks
  an exact match of a short one: the select takes \<^verbatim>\<open>Lead Developer\<close>, which no token
  equals, and not \<^verbatim>\<open>QA\<close>, which the first token equals. And the example of the claim
  needs a blank select: when the first of the three options is selected, as it is in a
  select that was never touched, the select keeps it.
\<close>

theorem exact_outranked_by_partial_counterexample:
  "heuristic_select [JStr ''QA, Developer''] (blank_select [''QA'', ''Lead Developer''])
     = Inr ((blank_select [''QA'', ''Lead Developer''])\<lparr>f_value := ''Lead Developer''\<rparr>)
   \<and> direct_match (same_option ''QA'') ''qa''
   \<and> \<not> direct_match (same_option ''Lead Developer'') ''qa''
   \<and> \<not> direct_match (same_option ''Lead Developer'') ''developer''
   \<and> partial_match (same_option ''Lead Developer'') ''developer''
   \<and> role_tokens ''QA, Developer'' = [''qa'', ''developer'']
   \<and> heuristic_select [JStr ''Developer, QA'']
        ((blank_select [''Product Manager'', ''Developer'', ''QA Engineer''])
           \<lparr>f_value := ''Product Manager''\<rparr>)
       = Inr ((blank_select [''Product Manager'', ''Developer'', ''QA Engineer''])
                \<lparr>f_value := ''Product Manager''\<rparr>)"
  by code_simp

section \<open>Saved phase data\<close>

text \<open>
  Claim C5 against the code. The user has typed the stakeholders and the feature holds a
  saved submission of the phase with another value under the same id. The first step of
  \<^verbatim>\<open>prefillFromProject\<close> replaces what the user typed, while \<^verbatim>\<open>applyGeneralMapping\<close>, a
  later pass of the same function, leaves the typed value alone.
\<close>

theorem saved_phase_data_overwrites_typed_field:
  "prefill_saved_phase typed_form
      (JObj [(''phaseData'', JObj [(''discovery'', JObj [(''stakeholders'', JStr ''Alice - PM'')])])])
      (JObj []) ''discovery''
     = Inr ([\<lparr>f_id = ''stakeholders'', f_tag = ''TEXTAREA'', f_value = ''Alice - PM'',
               f_options = []\<rparr>], True)
   \<and> applyGeneralMapping (Some typed_form) (JObj [(''stakeholders'', JStr ''Alice - PM'')])
     = Inr (Some typed_form, False)"
  by code_simp


section \<open>Extraction from a pasted response: facts\<close>

lemma match_all_place:
  "m \<in> set (match_all kws s) \<Longrightarrow>
   \<exists>pre t. s = pre @ t \<and> keyword_at kws t \<and> CHR ''.'' \<in> set t
            \<and> m = takeWhile (\<lambda>x. x \<noteq> CHR ''.'') t @ ''.''"
proof (induction kws s rule: match_all.induct)
  case (1 kws)
  then show ?case by simp
next
  case (2 kws c cs)
  let ?s = "c # cs"
  show ?case
  proof (cases "keyword_at kws ?s \<and> CHR ''.'' \<in> set ?s")
    case True
    let ?rest = "tl (dropWhile (\<lambda>x. x \<noteq> CHR ''.'') ?s)"
    from True "2.prems" have "m = takeWhile (\<lambda>x. x \<noteq> CHR ''.'') ?s @ ''.''
        \<or> m \<in> set (match_all kws ?rest)" by auto
    then show ?thesis
    proof
      assume "m = takeWhile (\<lambda>x. x \<noteq> CHR ''.'') ?s @ ''.''"
      with True show ?thesis by (intro exI [of _ "[]"] exI [of _ ?s]) simp
    next
      assume "m \<in> set (match_all kws ?rest)"
      from "2.IH"(1) [OF True this] obtain pre t where
        r: "?rest = pre @ t" and k: "keyword_at kws t" and d: "CHR ''.'' \<in> set t"
        and m: "m = takeWhile (\<lambda>x. x \<noteq> CHR ''.'') t @ ''.''" by blast
      from True have ne: "dropWhile (\<lambda>x. x \<noteq> CHR ''.'') ?s \<noteq> []" by auto
      have "?s = takeWhile (\<lambda>x. x \<noteq> CHR ''.'') ?s @ dropWhile (\<lambda>x. x \<noteq> CHR ''.'') ?s"
        by simp
      also have "dropWhile (\<lambda>x. x \<noteq> CHR ''.'') ?s
                   = hd (dropWhile (\<lambda>x. x \<noteq> CHR ''.'') ?s) # ?rest"
        using ne by simp
      finally have "?s = (takeWhile (\<lambda>x. x \<noteq> CHR ''.'') ?s
                          @ [hd (dropWhile (\<lambda>x. x \<noteq> CHR ''.'') ?s)] @ pre) @ t"
        using r by simp
      with k d m show ?thesis by blast
    qed
  next
    case False
    with "2.prems" have "m \<in> set (match_all kws cs)" by auto
    from "2.IH"(2) [OF False this] obtain pre t where
      "cs = pre @ t" "keyword_at kws t" "CHR ''.'' \<in> set t"
      "m = takeWhile (\<lambda>x. x \<noteq> CHR ''.'') t @ ''.''" by blast
    then have "?s = (c # pre) @ t" by simp
    with \<open>keyword_at kws t\<close> \<open>CHR ''.'' \<in> set t\<close>
         \<open>m = takeWhile (\<lambda>x. x \<noteq> CHR ''.'') t @ ''.''\<close>
    show ?thesis by blast
  qed
qed

lemma match_all_finds:
  "s = pre @ t \<Longrightarrow> keyword_at kws t \<Longrightarrow> CHR ''.'' \<in> set t \<Longrightarrow> match_all kws s \<noteq> []"
proof (induction kws s arbitrary: pre rule: match_all.induct)
  case (1 kws)
  then show ?case by simp
next
  case (2 kws c cs)
  show ?case
  proof (cases "keyword_at kws (c # cs) \<and> CHR ''.'' \<in> set (c # cs)")
    case True
    then show ?thesis by simp
  next
    case False
    with "2.prems" have "pre \<noteq> []" by auto
    then obtain pre' where "pre = c # pre'" "cs = pre' @ t"
      using "2.prems"(1) by (cases pre) auto
    from "2.IH"(2) [OF False this(2) "2.prems"(2,3)] False show ?thesis by simp
  qed
qed

lemma match_all_empty_iff:
  "match_all kws s = [] \<longleftrightarrow>
     \<not> (\<exists>pre t. s = pre @ t \<and> keyword_at kws t \<and> CHR ''.'' \<in> set t)"
proof
  assume "match_all kws s = []"
  then show "\<not> (\<exists>pre t. s = pre @ t \<and> keyword_at kws t \<and> CHR ''.'' \<in> set t)"
    using match_all_finds by blast
next
  assume n: "\<not> (\<exists>pre t. s = pre @ t \<and> keyword_at kws t \<and> CHR ''.'' \<in> set t)"
  show "match_all kws s = []"
  proof (rule ccontr)
    assume "match_all kws s \<noteq> []"
    then obtain m where "m \<in> set (match_all kws s)" by (cases "match_all kws s") auto
    from match_all_place [OF this] n show False by blast
  qed
qed

lemma extract_matches_eq:
  "extract_matches kws r =
     (if match_all kws r = [] then None else Some (trim (join '' '' (match_all kws r))))"
  by (simp add: extract_matches_def split: list.splits)

lemma with_fallback_eq:
  "with_fallback p f r =
     (if match_all p r \<noteq> [] then extract_matches p r else extract_matches f r)"
  by (simp add: with_fallback_def extract_matches_eq)

lemma phase0_fields:
  "map_of (extract_phase 0 r) ''stakeholders'' = with_fallback stakeholder_keywords people_keywords r"
  "map_of (extract_phase 0 r) ''currentPainPoints'' = with_fallback painpoint_keywords problem_keywords r"
  "map_of (extract_phase 0 r) ''successMetrics'' = with_fallback metric_keywords success_keywords r"
  "map_of (extract_phase 0 r) ''technologyConstraints'' = with_fallback tech_keywords technical_keywords r"
  by (simp_all add: extract_phase_def set_fields_def split: option.splits)

lemma phase1_fields:
  "map_of (extract_phase 1 r) ''implementationTimeline'' = extract_matches timeline_keywords r"
  "map_of (extract_phase 1 r) ''budgetConstraints'' = extract_matches budget_keywords r"
  "map_of (extract_phase 1 r) ''changeReadiness'' = extract_matches change_keywords r"
  by (simp_all add: extract_phase_def set_fields_def split: option.splits)

lemma tl_dropWhile_drop:
  "tl (dropWhile P s) = drop (Suc (length (takeWhile P s))) s"
proof -
  have "s = takeWhile P s @ dropWhile P s" by simp
  then have "drop (Suc (length (takeWhile P s))) s
               = drop (Suc (length (takeWhile P s))) (takeWhile P s @ dropWhile P s)" by simp
  also have "\<dots> = drop 1 (dropWhile P s)" by (simp del: takeWhile_dropWhile_id)
  finally show ?thesis by (simp add: drop_Suc)
qed

lemma match_all_scan: "match_all kws s = scan_lower kws s (toLowerCase s)"
proof (induction kws s rule: match_all.induct)
  case (1 kws)
  show ?case by simp
next
  case (2 kws c cs)
  let ?P = "\<lambda>x. x \<noteq> CHR ''.''"
  have l: "toLowerCase (tl (dropWhile ?P (c # cs)))
             = drop (Suc (length (takeWhile ?P (c # cs)))) (toLowerCase (c # cs))"
    unfolding tl_dropWhile_drop toLowerCase_def by (simp only: drop_map)
  have t: "tl (toLowerCase (c # cs)) = toLowerCase cs" by (simp add: toLowerCase_def)
  show ?case
  proof (cases "keyword_at kws (c # cs) \<and> CHR ''.'' \<in> set (c # cs)")
    case True
    from "2.IH"(1) [OF True] True show ?thesis
      by (simp only: match_all.simps scan_lower.simps l keyword_at_def simp_thms if_True)
  next
    case False
    from "2.IH"(2) [OF False] False show ?thesis
      by (simp only: match_all.simps scan_lower.simps t keyword_at_def simp_thms if_False)
  qed
qed


lemma match_all_decompose:
  assumes "\<forall>p\<in>set (suffixes pre). p \<noteq> [] \<longrightarrow> \<not> keyword_at kws (p @ m @ ''.'' @ rest)"
      and "keyword_at kws (m @ ''.'' @ rest)" and "CHR ''.'' \<notin> set m"
  shows "match_all kws (pre @ m @ ''.'' @ rest) = (m @ ''.'') # match_all kws rest"
  using assms(1)
proof (induction pre)
  case Nil
  let ?P = "\<lambda>x. x \<noteq> CHR ''.''"
  obtain c cs where s: "m @ ''.'' @ rest = c # cs" by (cases m) auto
  have a: "\<forall>x\<in>set m. ?P x" using assms(3) by auto
  have t: "takeWhile ?P (m @ ''.'' @ rest) = m"
    using a by (simp add: takeWhile_append2)
  have d: "dropWhile ?P (m @ ''.'' @ rest) = ''.'' @ rest"
    using a by (simp add: dropWhile_append2)
  have k: "keyword_at kws (c # cs) \<and> CHR ''.'' \<in> set (c # cs)"
    using assms(2) unfolding s [symmetric] by simp
  have "match_all kws (c # cs)
          = (takeWhile ?P (c # cs) @ ''.'') # match_all kws (tl (dropWhile ?P (c # cs)))"
    using k by (simp only: match_all.simps simp_thms if_True)
  then show ?case unfolding s [symmetric] t d by simp
next
  case (Cons c pre)
  have "c # pre \<in> set (suffixes (c # pre))" by simp
  with Cons.prems have n: "\<not> keyword_at kws ((c # pre) @ m @ ''.'' @ rest)" by blast
  have "\<forall>p\<in>set (suffixes pre). p \<noteq> [] \<longrightarrow> \<not> keyword_at kws (p @ m @ ''.'' @ rest)"
    using Cons.prems by simp
  from Cons.IH [OF this] n show ?case by simp
qed

text \<open>
  Claim C9, as amended. The search goes through the response from left to right. At the
  first place where a keyword of the list stands (in any case) with a full stop somewhere
  after it, the piece from that place to the first full stop is kept, and the search goes
  on behind that full stop in the same way: so every such piece is kept, and the pieces do
  not overlap. Nothing is kept exactly when no keyword is followed by a full stop. The
  pieces are joined with single blanks and the result is trimmed. The four fields of the
  first phase take the pieces of their own list and, when there is none, those of their
  second list; the three fields of the second phase (timeline, budget, readiness for
  change) have one list and no second one.
\<close>

theorem extraction_keeps_keyword_to_full_stop:
  "(m \<in> set (match_all kws r) \<longrightarrow>
      (\<exists>pre t. r = pre @ t \<and> keyword_at kws t \<and> CHR ''.'' \<in> set t
               \<and> m = takeWhile (\<lambda>x. x \<noteq> CHR ''.'') t @ ''.''))
   \<and> (match_all kws r = [] \<longleftrightarrow>
        \<not> (\<exists>pre t. r = pre @ t \<and> keyword_at kws t \<and> CHR ''.'' \<in> set t))
   \<and> ((\<forall>p\<in>set (suffixes before). p \<noteq> [] \<longrightarrow>
           \<not> keyword_at kws (p @ piece @ ''.'' @ rest)) \<longrightarrow>
        keyword_at kws (piece @ ''.'' @ rest) \<longrightarrow> CHR ''.'' \<notin> set piece \<longrightarrow>
        match_all kws (before @ piece @ ''.'' @ rest) = (piece @ ''.'') # match_all kws rest)
   \<and> extract_matches kws r =
        (if match_all kws r = [] then None else Some (trim (join '' '' (match_all kws r))))
   \<and> with_fallback kws fallback r =
        (if match_all kws r \<noteq> [] then extract_matches kws r else extract_matches fallback r)
   \<and> map_of (extract_phase 0 r) ''stakeholders''
        = with_fallback stakeholder_keywords people_keywords r
   \<and> map_of (extract_phase 0 r) ''currentPainPoints''
        = with_fallback painpoint_keywords problem_keywords r
   \<and> map_of (extract_phase 0 r) ''successMetrics''
        = with_fallback metric_keywords success_keywords r
   \<and> map_of (extract_phase 0 r) ''technologyConstraints''
        = with_fallback tech_keywords technical_keywords r
   \<and> map_of (extract_phase 1 r) ''implementationTimeline'' = extract_matches timeline_keywords r
   \<and> map_of (extract_phase 1 r) ''budgetConstraints'' = extract_matches budget_keywords r
   \<and> map_of (extract_phase 1 r) ''changeReadiness'' = extract_matches change_keywords r"
  using match_all_place [of m kws r] match_all_empty_iff [of kws r] extract_matches_eq [of kws r]
        with_fallback_eq [of kws fallback r] phase0_fields [of r] phase1_fields [of r]
        match_all_decompose [of before kws piece rest]
  by (intro conjI impI) blast+

text \<open>
  C9 on a response with two pieces, the second of which runs over an exclamation mark:
  the pieces are found one after the other, and both are kept and joined.
\<close>

theorem extraction_keeps_keyword_to_full_stop_witness:
  "match_all stakeholder_keywords ''The team is big. Users wait! Often. Done''
     = [''team is big.'', ''Users wait! Often.'']
   \<and> map_of (extract_phase 0 ''The team is big. Users wait! Often. Done'') ''stakeholders''
       = Some ''team is big. Users wait! Often.''"
proof -
  let ?K = stakeholder_keywords
  let ?r = "''The team is big. Users wait! Often. Done''"
  let ?r1 = "'' Users wait! Often. Done''"
  have r: "?r = ''The '' @ ''team is big'' @ ''.'' @ ?r1" by simp
  have r1: "?r1 = '' '' @ ''Users wait! Often'' @ ''.'' @ '' Done''" by simp
  have "list_all (\<lambda>p. p \<noteq> [] \<longrightarrow> \<not> keyword_at ?K (p @ ''team is big'' @ ''.'' @ ?r1))
          (suffixes ''The '')" by code_simp
  then have a1: "\<forall>p\<in>set (suffixes ''The ''). p \<noteq> [] \<longrightarrow>
                   \<not> keyword_at ?K (p @ ''team is big'' @ ''.'' @ ?r1)"
    by (simp only: list_all_iff)
  have a2: "keyword_at ?K (''team is big'' @ ''.'' @ ?r1)" by code_simp
  have a3: "CHR ''.'' \<notin> set ''team is big''" by simp
  have "list_all (\<lambda>p. p \<noteq> [] \<longrightarrow> \<not> keyword_at ?K (p @ ''Users wait! Often'' @ ''.'' @ '' Done''))
          (suffixes '' '')" by code_simp
  then have b1: "\<forall>p\<in>set (suffixes '' ''). p \<noteq> [] \<longrightarrow>
                   \<not> keyword_at ?K (p @ ''Users wait! Often'' @ ''.'' @ '' Done'')"
    by (simp only: list_all_iff)
  have b2: "keyword_at ?K (''Users wait! Often'' @ ''.'' @ '' Done'')" by code_simp
  have b3: "CHR ''.'' \<notin> set ''Users wait! Often''" by simp
  have c: "\<not> (\<exists>pre t. '' Done'' = pre @ t \<and> keyword_at ?K t \<and> CHR ''.'' \<in> set t)"
  proof
    assume "\<exists>pre t. '' Done'' = pre @ t \<and> keyword_at ?K t \<and> CHR ''.'' \<in> set t"
    then obtain pre t where "'' Done'' = pre @ t" and "CHR ''.'' \<in> set t" by blast
    then have "CHR ''.'' \<in> set '' Done''" by (metis Un_iff set_append)
    then show False by simp
  qed
  note T1 = extraction_keeps_keyword_to_full_stop [of _ ?K ?r "''The ''" "''team is big''" ?r1
      people_keywords]
  note T2 = extraction_keeps_keyword_to_full_stop [of _ ?K "'' Done''" "'' ''" "''Users wait! Often''"
      "'' Done''" people_keywords]
  from T1 a1 a2 a3
  have m1: "match_all ?K (''The '' @ ''team is big'' @ ''.'' @ ?r1)
              = (''team is big'' @ ''.'') # match_all ?K ?r1" by blast
  from T2 b1 b2 b3
  have m2: "match_all ?K ('' '' @ ''Users wait! Often'' @ ''.'' @ '' Done'')
              = (''Users wait! Often'' @ ''.'') # match_all ?K '' Done''" by blast
  from T2 c have m3: "match_all ?K '' Done'' = []" by blast
  have m: "match_all ?K ?r = [''team is big.'', ''Users wait! Often.'']"
    using m1 m2 m3 by simp
  note A4 = T1 [THEN conjunct2, THEN conjunct2, THEN conjunct2, THEN conjunct1]
  note A5 = T1 [THEN conjunct2, THEN conjunct2, THEN conjunct2, THEN conjunct2, THEN conjunct1]
  note A6 = T1 [THEN conjunct2, THEN conjunct2, THEN conjunct2, THEN conjunct2, THEN conjunct2,
      THEN conjunct1]
  have t: "trim (join '' '' [''team is big.'', ''Users wait! Often.''])
             = ''team is big. Users wait! Often.''" by code_simp
  have 2: "map_of (extract_phase 0 ?r) ''stakeholders'' = Some ''team is big. Users wait! Often.''"
    unfolding A6 A5 A4 m by (simp only: t list.distinct if_True if_False simp_thms)
  from m 2 show ?thesis by (rule conjI)
qed

text \<open>
  Claim C9 as it is written keeps the sentences that contain a keyword, the response
  being split on sentence terminators. The code keeps neither the start of the sentence
  nor its end at a question mark.
\<close>

theorem extraction_not_whole_sentences_counterexample:
  "match_all stakeholder_keywords ''The team is big. Who leads the team? Nobody knows.''
     = [''team is big.'', ''team? Nobody knows.'']
   \<and> sentences_with_keyword stakeholder_keywords ''The team is big. Who leads the team? Nobody knows.''
     = [''The team is big.'', ''Who leads the team?'']"
proof -
  let ?r = "''The team is big. Who leads the team? Nobody knows.''"
  have "scan_lower stakeholder_keywords ?r (toLowerCase ?r) = [''team is big.'', ''team? Nobody knows.'']"
    by code_simp
  then have 1: "match_all stakeholder_keywords ?r = [''team is big.'', ''team? Nobody knows.'']"
    by (simp only: match_all_scan)
  have 2: "sentences_with_keyword stakeholder_keywords ?r = [''The team is big.'', ''Who leads the team?'']"
    by code_simp
  from 1 2 show ?thesis by (rule conjI)
qed

end
